theory Spec2Isabelle
  imports Main
begin

section \<open>The month-grid calendar of \<open>src/components/calendar/Calendar.tsx\<close>\<close>

text \<open>
  The component \<open>MonthView\<close> builds its grid with the \<open>date-fns\<close> functions
  \<open>startOfMonth\<close>, \<open>endOfMonth\<close>, \<open>startOfWeek\<close>, \<open>endOfWeek\<close>, \<open>addDays\<close>,
  \<open>addMonths\<close>, \<open>subMonths\<close>, \<open>isSameDay\<close>, \<open>isSameMonth\<close> and \<open>format\<close>, which in turn
  read and write the fields of a JavaScript \<open>Date\<close>.

  The development has two parts.
  \<^item> The first part computes on local time values. A date is an integer number of
    milliseconds since 1970-01-01T00:00:00 of local time, and the calendar fields follow
    the definitions of the ECMAScript specification (Day, TimeWithinDay, DaysInYear,
    DayFromYear, YearFromTime, InLeapYear, MonthFromTime, DateFromTime, WeekDay,
    MakeTime, MakeDay, MakeDate). It holds the calendar arithmetic, the grid as a
    function of local time values, the state of the component and its handlers.
  \<^item> The second part models the \<open>Date\<close> object itself: a time value in UTC or \<open>NaN\<close>
    (Invalid Date), the time zone as the function \<open>LocalTZA\<close>, and the range of
    \<open>8.64e15\<close> ms around the epoch, outside of which \<open>TimeClip\<close> gives \<open>NaN\<close>. Its
    functions wrap those of the first part.

  In a time zone with a constant offset from UTC, and as long as the first Monday and
  the last Sunday of the grid are valid Dates, the grid of the second part is the grid
  of the first part, built on the local time values (\<open>monthViewDays_tz_local\<close>): this
  is the setting of the statements on \<open>monthViewDays\<close>. Outside of it the grid can be
  empty (in the last month of the range) or skip a day (in a time zone that skips one),
  and the month navigation can produce an Invalid Date; the second part shows each.
\<close>

subsection \<open>Time values (ECMAScript, Date objects)\<close>

type_synonym Date = int

definition msPerDay :: int where
  "msPerDay = 86400000"

definition Day :: "Date \<Rightarrow> int" where
  "Day t = t div msPerDay"

definition TimeWithinDay :: "Date \<Rightarrow> int" where
  "TimeWithinDay t = t mod msPerDay"

definition DaysInYear :: "int \<Rightarrow> int" where
  "DaysInYear y =
     (if y mod 4 \<noteq> 0 then 365
      else if y mod 100 \<noteq> 0 then 366
      else if y mod 400 \<noteq> 0 then 365 else 366)"

definition DayFromYear :: "int \<Rightarrow> int" where
  "DayFromYear y =
     365 * (y - 1970) + (y - 1969) div 4 - (y - 1901) div 100 + (y - 1601) div 400"

text \<open>
  ECMAScript defines the year of a time value as the largest \<open>y\<close> whose first day is
  not after it. \<open>yearSearch\<close> finds it by walking up from a year that is not too late;
  \<open>YearFromDay_bounds\<close> and \<open>YearFromDay_unique\<close> below show that the result is the
  year of that definition.
\<close>

lemma div_step:
  fixes a n :: int
  assumes "0 < n"
  shows "(a + 1) div n = a div n + (if n dvd (a + 1) then 1 else 0)"
proof (cases "n dvd (a + 1)")
  case True
  then obtain k where k: "a + 1 = n * k" by (auto simp: dvd_def)
  then have a: "a = n * (k - 1) + (n - 1)" by (simp add: algebra_simps)
  have "a div n = k - 1"
    using assms by (subst a) simp
  moreover have "(a + 1) div n = k" using k assms by simp
  ultimately show ?thesis using True by simp
next
  case False
  define r where "r = a mod n"
  have r: "0 \<le> r" "r < n" using assms by (simp_all add: r_def)
  have "r + 1 \<noteq> n"
  proof
    assume "r + 1 = n"
    then have "(a + 1) mod n = 0"
      by (metis r_def mod_add_left_eq mod_self)
    with False show False by (simp add: dvd_eq_mod_eq_0)
  qed
  with r have r1: "r + 1 < n" by simp
  have "a + 1 = n * (a div n) + (r + 1)" by (simp add: r_def)
  then have "(a + 1) div n = a div n + (r + 1) div n"
    using assms by (metis div_mult_self2 add.commute less_irrefl)
  then show ?thesis using False r r1 by simp
qed

lemma dvd_shift: "(n::int) dvd c \<Longrightarrow> n dvd (y - c) \<longleftrightarrow> y mod n = 0"
  by (simp add: dvd_eq_mod_eq_0 [symmetric] dvd_diff_left_iff)

lemma mod_0_weaken: "(m::int) dvd n \<Longrightarrow> y mod n = 0 \<Longrightarrow> y mod m = 0"
  using dvd_trans [of m n y] by (simp add: mod_eq_0_iff_dvd)

lemma DayFromYear_Suc: "DayFromYear (y + 1) = DayFromYear y + DaysInYear y"
proof -
  have d4: "4 dvd (y - 1968) \<longleftrightarrow> y mod 4 = 0" by (rule dvd_shift) simp
  have d100: "100 dvd (y - 1900) \<longleftrightarrow> y mod 100 = 0" by (rule dvd_shift) simp
  have d400: "400 dvd (y - 1600) \<longleftrightarrow> y mod 400 = 0" by (rule dvd_shift) simp
  have m400: "y mod 400 = 0 \<Longrightarrow> y mod 100 = 0"
    by (rule mod_0_weaken [of 100 400]) simp_all
  have m100: "y mod 100 = 0 \<Longrightarrow> y mod 4 = 0"
    by (rule mod_0_weaken [of 4 100]) simp_all
  have a: "(y + 1 - 1969) div 4 = (y - 1969) div 4 + (if y mod 4 = 0 then 1 else 0)"
    using div_step [of 4 "y - 1969"] d4 by (simp add: algebra_simps)
  have b: "(y + 1 - 1901) div 100 = (y - 1901) div 100 + (if y mod 100 = 0 then 1 else 0)"
    using div_step [of 100 "y - 1901"] d100 by (simp add: algebra_simps)
  have c: "(y + 1 - 1601) div 400 = (y - 1601) div 400 + (if y mod 400 = 0 then 1 else 0)"
    using div_step [of 400 "y - 1601"] d400 by (simp add: algebra_simps)
  show ?thesis
    unfolding DayFromYear_def DaysInYear_def a b c
    using m400 m100 by (simp add: algebra_simps)
qed

lemma DaysInYear_bounds: "365 \<le> DaysInYear y" "DaysInYear y \<le> 366"
  by (simp_all add: DaysInYear_def)

lemma DayFromYear_less_Suc: "DayFromYear y < DayFromYear (y + 1)"
  using DaysInYear_bounds(1) [of y] by (simp add: DayFromYear_Suc)

function yearSearch :: "int \<Rightarrow> int \<Rightarrow> int" where
  "yearSearch d y = (if DayFromYear (y + 1) \<le> d then yearSearch d (y + 1) else y)"
  by pat_completeness auto
termination
proof (relation "measure (\<lambda>(d, y). nat (d - DayFromYear y))")
  show "wf (measure (\<lambda>(d, y). nat (d - DayFromYear y)))" by simp
next
  fix d y :: int
  assume "DayFromYear (y + 1) \<le> d"
  then show "((d, y + 1), (d, y)) \<in> measure (\<lambda>(d, y). nat (d - DayFromYear y))"
    using DayFromYear_less_Suc [of y] by simp
qed

declare yearSearch.simps [simp del]

definition YearFromDay :: "int \<Rightarrow> int" where
  "YearFromDay d = yearSearch d (1970 + (if 0 \<le> d then d div 366 else d div 365))"

lemma DayFromYear_1970: "DayFromYear 1970 = 0"
  by (simp add: DayFromYear_def)

lemma DayFromYear_est_nonneg: "0 \<le> k \<Longrightarrow> DayFromYear (1970 + k) \<le> 366 * k"
proof (induction k rule: int_ge_induct)
  case base
  show ?case by (simp add: DayFromYear_1970)
next
  case (step i)
  have "DayFromYear (1970 + (i + 1)) = DayFromYear (1970 + i) + DaysInYear (1970 + i)"
    using DayFromYear_Suc [of "1970 + i"] by (simp add: algebra_simps)
  then show ?case
    using step DaysInYear_bounds(2) [of "1970 + i"] by simp
qed

lemma DayFromYear_est_neg: "k \<le> 0 \<Longrightarrow> DayFromYear (1970 + k) \<le> 365 * k"
proof (induction k rule: int_le_induct)
  case base
  show ?case by (simp add: DayFromYear_1970)
next
  case (step i)
  have "DayFromYear (1970 + i) = DayFromYear (1970 + (i - 1)) + DaysInYear (1970 + (i - 1))"
    using DayFromYear_Suc [of "1970 + (i - 1)"] by (simp add: algebra_simps)
  then show ?case
    using step DaysInYear_bounds(1) [of "1970 + (i - 1)"] by simp
qed

lemma yearSearch_bounds:
  "DayFromYear y \<le> d \<Longrightarrow>
     DayFromYear (yearSearch d y) \<le> d \<and> d < DayFromYear (yearSearch d y + 1)"
proof (induction d y rule: yearSearch.induct)
  case (1 d y)
  show ?case
  proof (cases "DayFromYear (y + 1) \<le> d")
    case True
    then show ?thesis using "1.IH" by (subst (1 2) yearSearch.simps) simp
  next
    case False
    then show ?thesis using "1.prems" by (subst (1 2) yearSearch.simps) simp
  qed
qed

lemma YearFromDay_bounds:
  "DayFromYear (YearFromDay d) \<le> d" "d < DayFromYear (YearFromDay d + 1)"
proof -
  define k where "k = (if 0 \<le> d then d div 366 else d div 365)"
  have "DayFromYear (1970 + k) \<le> d"
  proof (cases "0 \<le> d")
    case True
    then have "0 \<le> k" by (simp add: k_def)
    then have "DayFromYear (1970 + k) \<le> 366 * k" by (rule DayFromYear_est_nonneg)
    also have "366 * k \<le> d" using True by (simp add: k_def)
    finally show ?thesis .
  next
    case False
    then have "k \<le> 0" using pos_imp_zdiv_neg_iff [of 365 d] by (simp add: k_def)
    then have "DayFromYear (1970 + k) \<le> 365 * k" by (rule DayFromYear_est_neg)
    also have "365 * k \<le> d" using False by (simp add: k_def)
    finally show ?thesis .
  qed
  then have "DayFromYear (yearSearch d (1970 + k)) \<le> d \<and>
      d < DayFromYear (yearSearch d (1970 + k) + 1)"
    by (rule yearSearch_bounds)
  then show "DayFromYear (YearFromDay d) \<le> d" "d < DayFromYear (YearFromDay d + 1)"
    by (simp_all add: YearFromDay_def k_def)
qed

lemma DayFromYear_mono: "y \<le> y' \<Longrightarrow> DayFromYear y \<le> DayFromYear y'"
proof (induction y' rule: int_ge_induct)
  case base
  show ?case by simp
next
  case (step i)
  then show ?case using DayFromYear_less_Suc [of i] by simp
qed

lemma YearFromDay_unique:
  assumes "DayFromYear y \<le> d" "d < DayFromYear (y + 1)"
  shows "YearFromDay d = y"
proof (rule ccontr)
  assume ne: "YearFromDay d \<noteq> y"
  show False
  proof (cases "YearFromDay d < y")
    case True
    then have "DayFromYear (YearFromDay d + 1) \<le> DayFromYear y"
      by (intro DayFromYear_mono) simp
    with YearFromDay_bounds(2) [of d] assms(1) show False by simp
  next
    case False
    with ne have "DayFromYear (y + 1) \<le> DayFromYear (YearFromDay d)"
      by (intro DayFromYear_mono) simp
    with YearFromDay_bounds(1) [of d] assms(2) show False by simp
  qed
qed

text \<open>
  \<open>InLeapYear\<close>, \<open>DayWithinYear\<close>, \<open>MonthFromTime\<close> and \<open>DateFromTime\<close> of ECMAScript,
  with their tables of month boundaries, written on day numbers (the \<open>Day\<close> of a time
  value); months count from 0, days of the month from 1.
\<close>

definition InLeapYear :: "int \<Rightarrow> int" where
  "InLeapYear d = (if DaysInYear (YearFromDay d) = 366 then 1 else 0)"

definition DayWithinYear :: "int \<Rightarrow> int" where
  "DayWithinYear d = d - DayFromYear (YearFromDay d)"

definition MonthFromDay :: "int \<Rightarrow> int" where
  "MonthFromDay d =
     (let w = DayWithinYear d; l = InLeapYear d in
      if w < 31 then 0
      else if w < 59 + l then 1
      else if w < 90 + l then 2
      else if w < 120 + l then 3
      else if w < 151 + l then 4
      else if w < 181 + l then 5
      else if w < 212 + l then 6
      else if w < 243 + l then 7
      else if w < 273 + l then 8
      else if w < 304 + l then 9
      else if w < 334 + l then 10
      else 11)"

definition DateFromDay :: "int \<Rightarrow> int" where
  "DateFromDay d =
     (let w = DayWithinYear d; l = InLeapYear d; m = MonthFromDay d in
      if m = 0 then w + 1
      else if m = 1 then w - 30
      else if m = 2 then w - 58 - l
      else if m = 3 then w - 89 - l
      else if m = 4 then w - 119 - l
      else if m = 5 then w - 150 - l
      else if m = 6 then w - 180 - l
      else if m = 7 then w - 211 - l
      else if m = 8 then w - 242 - l
      else if m = 9 then w - 272 - l
      else if m = 10 then w - 303 - l
      else w - 333 - l)"

text \<open>The day within the year on which month \<open>m\<close> (0 to 11) starts; 12 is the year's end.\<close>

definition monthOffset :: "int \<Rightarrow> int \<Rightarrow> int" where
  "monthOffset l m =
     (if m = 0 then 0
      else if m = 1 then 31
      else if m = 2 then 59 + l
      else if m = 3 then 90 + l
      else if m = 4 then 120 + l
      else if m = 5 then 151 + l
      else if m = 6 then 181 + l
      else if m = 7 then 212 + l
      else if m = 8 then 243 + l
      else if m = 9 then 273 + l
      else if m = 10 then 304 + l
      else if m = 11 then 334 + l
      else 365 + l)"

definition leapDays :: "int \<Rightarrow> int" where
  "leapDays y = (if DaysInYear y = 366 then 1 else 0)"

lemma leapDays_cases: "leapDays y = 0 \<or> leapDays y = 1"
  by (simp add: leapDays_def)

lemma DaysInYear_leapDays: "DaysInYear y = 365 + leapDays y"
  by (simp add: leapDays_def DaysInYear_def)

lemma InLeapYear_leapDays: "InLeapYear d = leapDays (YearFromDay d)"
  by (simp add: leapDays_def InLeapYear_def)

lemma DayWithinYear_bounds: "0 \<le> DayWithinYear d" "DayWithinYear d < 365 + InLeapYear d"
  using YearFromDay_bounds [of d]
  by (simp_all add: DayWithinYear_def InLeapYear_leapDays DayFromYear_Suc DaysInYear_leapDays)

lemma MonthFromDay_range: "0 \<le> MonthFromDay d" "MonthFromDay d \<le> 11"
  by (simp_all add: MonthFromDay_def Let_def)

lemma MonthFromDay_cases:
  "MonthFromDay d = 0 \<or> MonthFromDay d = 1 \<or> MonthFromDay d = 2 \<or> MonthFromDay d = 3 \<or>
   MonthFromDay d = 4 \<or> MonthFromDay d = 5 \<or> MonthFromDay d = 6 \<or> MonthFromDay d = 7 \<or>
   MonthFromDay d = 8 \<or> MonthFromDay d = 9 \<or> MonthFromDay d = 10 \<or> MonthFromDay d = 11"
  by (simp add: MonthFromDay_def Let_def)

lemma DayWithinYear_decomp:
  "DayWithinYear d = monthOffset (InLeapYear d) (MonthFromDay d) + DateFromDay d - 1"
  using MonthFromDay_cases [of d]
  by (auto simp add: DateFromDay_def monthOffset_def Let_def)

lemma DateFromDay_range:
  "1 \<le> DateFromDay d"
  "DateFromDay d \<le> monthOffset (InLeapYear d) (MonthFromDay d + 1) - monthOffset (InLeapYear d) (MonthFromDay d)"
  using DayWithinYear_bounds [of d]
  by (simp_all add: DateFromDay_def MonthFromDay_def monthOffset_def Let_def)

text \<open>
  \<open>MakeDay year month date\<close>: the day number of the given date of the given month;
  months outside 0 to 11 carry into the year, dates outside the month into its
  neighbours, as \<open>setDate\<close>, \<open>setMonth\<close> and \<open>setFullYear\<close> rely on.
\<close>

definition MakeDay :: "int \<Rightarrow> int \<Rightarrow> int \<Rightarrow> int" where
  "MakeDay year month dt =
     (let ym = year + month div 12; mn = month mod 12
      in DayFromYear ym + monthOffset (leapDays ym) mn + dt - 1)"

definition MakeTime :: "int \<Rightarrow> int \<Rightarrow> int \<Rightarrow> int \<Rightarrow> int" where
  "MakeTime h m s ms = h * 3600000 + m * 60000 + s * 1000 + ms"

definition MakeDate :: "int \<Rightarrow> int \<Rightarrow> Date" where
  "MakeDate d tm = d * msPerDay + tm"

definition getFullYear :: "Date \<Rightarrow> int" where
  "getFullYear t = YearFromDay (Day t)"

definition getMonth :: "Date \<Rightarrow> int" where
  "getMonth t = MonthFromDay (Day t)"

definition getDate :: "Date \<Rightarrow> int" where
  "getDate t = DateFromDay (Day t)"

text \<open>\<open>getDay\<close>: 0 is Sunday, 1 is Monday; 1970-01-01 was a Thursday.\<close>

definition getDay :: "Date \<Rightarrow> int" where
  "getDay t = (Day t + 4) mod 7"

definition setDate :: "Date \<Rightarrow> int \<Rightarrow> Date" where
  "setDate t dt = MakeDate (MakeDay (getFullYear t) (getMonth t) dt) (TimeWithinDay t)"


definition setFullYear :: "Date \<Rightarrow> int \<Rightarrow> int \<Rightarrow> int \<Rightarrow> Date" where
  "setFullYear t y m dt = MakeDate (MakeDay y m dt) (TimeWithinDay t)"

definition setHours :: "Date \<Rightarrow> int \<Rightarrow> int \<Rightarrow> int \<Rightarrow> int \<Rightarrow> Date" where
  "setHours t h m s ms = MakeDate (Day t) (MakeTime h m s ms)"


lemma day_decomp:
  "d = DayFromYear (YearFromDay d) + monthOffset (leapDays (YearFromDay d)) (MonthFromDay d)
        + DateFromDay d - 1"
  using DayWithinYear_decomp [of d] by (simp add: DayWithinYear_def InLeapYear_leapDays)

lemma month_cases:
  "0 \<le> m \<Longrightarrow> m \<le> 11 \<Longrightarrow>
     m = 0 \<or> m = 1 \<or> m = 2 \<or> m = 3 \<or> m = 4 \<or> m = 5 \<or> m = 6 \<or> m = 7 \<or> m = 8 \<or> m = 9 \<or>
     m = 10 \<or> m = (11::int)"
  by arith

lemma monthOffset_bounds:
  assumes "0 \<le> m" "m \<le> 11" "l = 0 \<or> l = 1"
  shows "0 \<le> monthOffset l m" "monthOffset l m < monthOffset l (m + 1)"
    "monthOffset l (m + 1) \<le> 365 + l"
  using month_cases [OF assms(1,2)] assms(3) by (auto simp add: monthOffset_def)

lemma fields_of_day:
  assumes m: "0 \<le> m" "m \<le> 11"
    and dt: "1 \<le> dt" "dt \<le> monthOffset (leapDays y) (m + 1) - monthOffset (leapDays y) m"
    and d: "d = DayFromYear y + monthOffset (leapDays y) m + dt - 1"
  shows "YearFromDay d = y" "MonthFromDay d = m" "DateFromDay d = dt"
proof -
  define l where "l = leapDays y"
  have l: "l = 0 \<or> l = 1" using leapDays_cases [of y] by (simp add: l_def)
  note b = monthOffset_bounds [OF m l]
  have "DayFromYear y \<le> d" using b(1) dt(1) by (simp add: d l_def)
  moreover have "d < DayFromYear (y + 1)"
    using b(3) dt(2) by (simp add: d l_def DayFromYear_Suc DaysInYear_leapDays)
  ultimately show y: "YearFromDay d = y" by (rule YearFromDay_unique)
  have w: "DayWithinYear d = monthOffset l m + dt - 1"
    by (simp add: DayWithinYear_def y) (simp add: d l_def)
  have il: "InLeapYear d = l" by (simp add: InLeapYear_leapDays y l_def)
  show mm: "MonthFromDay d = m"
    using month_cases [OF m] l dt unfolding l_def [symmetric]
    by (auto simp add: MonthFromDay_def w il monthOffset_def)
  show "DateFromDay d = dt"
    using DayWithinYear_decomp [of d] by (simp add: w il mm)
qed

lemma MakeDay_upto12:
  assumes "0 \<le> m" "m \<le> 12"
  shows "MakeDay y m dt = DayFromYear y + monthOffset (leapDays y) m + dt - 1"
proof (cases "m = 12")
  case True
  then show ?thesis
    by (simp add: MakeDay_def monthOffset_def DayFromYear_Suc DaysInYear_leapDays)
next
  case False
  with assms have "m div 12 = 0" "m mod 12 = m" by simp_all
  then show ?thesis by (simp add: MakeDay_def)
qed

lemma MakeDay_fields: "MakeDay (YearFromDay d) (MonthFromDay d) dt = d - DateFromDay d + dt"
  using MakeDay_upto12 [of "MonthFromDay d" "YearFromDay d" dt] MonthFromDay_range [of d]
    day_decomp [of d]
  by simp

lemma msPerDay_pos: "0 < msPerDay"
  by (simp add: msPerDay_def)

lemma Day_MakeDate: "0 \<le> tm \<Longrightarrow> tm < msPerDay \<Longrightarrow> Day (MakeDate d tm) = d"
  using msPerDay_pos by (simp add: Day_def MakeDate_def)

lemma TimeWithinDay_MakeDate:
  "0 \<le> tm \<Longrightarrow> tm < msPerDay \<Longrightarrow> TimeWithinDay (MakeDate d tm) = tm"
  by (simp add: TimeWithinDay_def MakeDate_def)

lemma TimeWithinDay_bounds: "0 \<le> TimeWithinDay t" "TimeWithinDay t < msPerDay"
  using msPerDay_pos by (simp_all add: TimeWithinDay_def)

lemma MakeDate_Day: "MakeDate (Day t) (TimeWithinDay t) = t"
  by (simp add: MakeDate_def Day_def TimeWithinDay_def)

lemma setDate_eq: "setDate t dt = MakeDate (Day t - getDate t + dt) (TimeWithinDay t)"
  by (simp add: setDate_def getFullYear_def getMonth_def getDate_def MakeDay_fields)

lemma Day_setDate: "Day (setDate t dt) = Day t - getDate t + dt"
  by (simp add: setDate_eq Day_MakeDate TimeWithinDay_bounds)



subsection \<open>The \<open>date-fns\<close> functions the component imports\<close>

text \<open>
  Each definition follows the body of the library function, written over the Date
  methods above. \<open>startOfWeek\<close> and \<open>endOfWeek\<close> take the option \<open>weekStartsOn\<close>
  (the component passes 1, Monday).
\<close>

definition startOfDay :: "Date \<Rightarrow> Date" where
  "startOfDay t = setHours t 0 0 0 0"

definition startOfMonth :: "Date \<Rightarrow> Date" where
  "startOfMonth t = setHours (setDate t 1) 0 0 0 0"

definition endOfMonth :: "Date \<Rightarrow> Date" where
  "endOfMonth t =
     (let month = getMonth t
      in setHours (setFullYear t (getFullYear t) (month + 1) 0) 23 59 59 999)"

definition startOfWeek :: "Date \<Rightarrow> int \<Rightarrow> Date" where
  "startOfWeek t weekStartsOn =
     (let dy = getDay t;
          diff = (if dy < weekStartsOn then 7 else 0) + dy - weekStartsOn
      in setHours (setDate t (getDate t - diff)) 0 0 0 0)"

definition endOfWeek :: "Date \<Rightarrow> int \<Rightarrow> Date" where
  "endOfWeek t weekStartsOn =
     (let dy = getDay t;
          diff = (if dy < weekStartsOn then - 7 else 0) + 6 - (dy - weekStartsOn)
      in setHours (setDate t (getDate t + diff)) 23 59 59 999)"

definition addDays :: "Date \<Rightarrow> int \<Rightarrow> Date" where
  "addDays t amount = (if amount = 0 then t else setDate t (getDate t + amount))"



definition isSameDay :: "Date \<Rightarrow> Date \<Rightarrow> bool" where
  "isSameDay dateLeft dateRight \<longleftrightarrow> startOfDay dateLeft = startOfDay dateRight"

definition isSameMonth :: "Date \<Rightarrow> Date \<Rightarrow> bool" where
  "isSameMonth dateLeft dateRight \<longleftrightarrow>
     getFullYear dateLeft = getFullYear dateRight \<and> getMonth dateLeft = getMonth dateRight"

text \<open>
  \<open>format\<close> for the two patterns the component uses. \<open>numberToString\<close> is the decimal
  numeral of a natural number; \<open>addLeadingZeros\<close> is the library's helper
  (sign, then the absolute value padded with zeros to the target length). The token
  \<open>yyyy\<close> prints the year of the era (\<open>1 - year\<close> for years up to 0), \<open>MM\<close> the month
  number from 1, \<open>dd\<close> the day of the month.
\<close>

fun numberToString :: "nat \<Rightarrow> string" where
  "numberToString n =
     (if n < 10 then [''0123456789'' ! n]
      else numberToString (n div 10) @ [''0123456789'' ! (n mod 10)])"

declare numberToString.simps [simp del]

definition padStart :: "string \<Rightarrow> nat \<Rightarrow> char \<Rightarrow> string" where
  "padStart s targetLength c = replicate (targetLength - length s) c @ s"

definition addLeadingZeros :: "int \<Rightarrow> nat \<Rightarrow> string" where
  "addLeadingZeros number targetLength =
     (if number < 0 then ''-'' else [])
       @ padStart (numberToString (nat \<bar>number\<bar>)) targetLength (CHR ''0'')"

definition format_yyyy :: "Date \<Rightarrow> string" where
  "format_yyyy t =
     (let signedYear = getFullYear t;
          year = (if signedYear > 0 then signedYear else 1 - signedYear)
      in addLeadingZeros year 4)"

definition format_MM :: "Date \<Rightarrow> string" where
  "format_MM t = addLeadingZeros (getMonth t + 1) 2"

definition format_dd :: "Date \<Rightarrow> string" where
  "format_dd t = addLeadingZeros (getDate t) 2"

text \<open>\<open>format(t, DayFormat)\<close> with \<open>DayFormat = "yyyy-MM-dd"\<close>.\<close>

definition format_DayFormat :: "Date \<Rightarrow> string" where
  "format_DayFormat t = format_yyyy t @ ''-'' @ format_MM t @ ''-'' @ format_dd t"


lemma MakeTime_0: "MakeTime 0 0 0 0 = 0"
  by (simp add: MakeTime_def)

lemma MakeTime_end: "MakeTime 23 59 59 999 = msPerDay - 1"
  by (simp add: MakeTime_def msPerDay_def)

lemma addDays_eq: "addDays t n = t + n * msPerDay"
proof -
  have "MakeDate (Day t + n) (TimeWithinDay t) = MakeDate (Day t) (TimeWithinDay t) + n * msPerDay"
    by (simp add: MakeDate_def algebra_simps)
  then show ?thesis
    by (simp add: addDays_def setDate_eq MakeDate_Day)
qed

lemma Day_add_days: "Day (t + n * msPerDay) = Day t + n"
  using msPerDay_pos by (simp add: Day_def)

lemma startOfDay_eq: "startOfDay t = Day t * msPerDay"
  by (simp add: startOfDay_def setHours_def MakeTime_0 MakeDate_def)

lemma isSameDay_iff: "isSameDay a b \<longleftrightarrow> Day a = Day b"
  using msPerDay_pos by (simp add: isSameDay_def startOfDay_eq)

lemma Day_mono: "a \<le> b \<Longrightarrow> Day a \<le> Day b"
  using msPerDay_pos by (simp add: Day_def zdiv_mono1)

lemma Day_less_imp_less: "Day a < Day b \<Longrightarrow> a < b"
  using Day_mono [of b a] by (rule_tac ccontr) simp

lemma loop_condition: "(a \<le> b \<or> isSameDay a b) \<longleftrightarrow> Day a \<le> Day b"
  using Day_mono [of a b] Day_less_imp_less [of a b] by (auto simp add: isSameDay_iff)

lemma startOfMonth_Day: "startOfMonth t = MakeDate (Day t - getDate t + 1) 0"
  by (simp add: startOfMonth_def setHours_def MakeTime_0 Day_setDate)

lemma startOfMonth_fields:
  "startOfMonth t =
     MakeDate (DayFromYear (getFullYear t) + monthOffset (leapDays (getFullYear t)) (getMonth t)) 0"
proof -
  have "Day t - getDate t + 1 =
      DayFromYear (getFullYear t) + monthOffset (leapDays (getFullYear t)) (getMonth t)"
    using day_decomp [of "Day t"] by (simp add: getFullYear_def getMonth_def getDate_def)
  then show ?thesis by (simp add: startOfMonth_Day)
qed

lemma endOfMonth_fields:
  "endOfMonth t =
     MakeDate (DayFromYear (getFullYear t) + monthOffset (leapDays (getFullYear t)) (getMonth t + 1) - 1)
       (msPerDay - 1)"
proof -
  have m: "0 \<le> getMonth t + 1" "getMonth t + 1 \<le> 12"
    using MonthFromDay_range [of "Day t"] by (simp_all add: getMonth_def)
  show ?thesis
    by (simp add: endOfMonth_def setHours_def setFullYear_def MakeTime_end
        Day_MakeDate TimeWithinDay_bounds MakeDay_upto12 [OF m])
qed

lemma weekday_shift:
  "(d + 4) mod 7 = (if (d + 3) mod 7 = 6 then 0 else (d + 3) mod 7 + (1::int))"
proof -
  define r where "r = (d + 3) mod 7"
  have r: "0 \<le> r" "r < 7" by (simp_all add: r_def)
  have e: "d + 4 = d + 3 + 1" by simp
  have "(d + 4) mod 7 = (r + 1) mod 7"
    unfolding r_def e by (rule mod_add_left_eq [symmetric])
  also have "\<dots> = (if r = 6 then 0 else r + 1)"
    using r by simp
  finally show ?thesis by (simp add: r_def)
qed

lemma startOfWeek_Day: "startOfWeek t 1 = MakeDate (Day t - (Day t + 3) mod 7) 0"
proof -
  have "(if getDay t < 1 then 7 else 0) + getDay t - 1 = (Day t + 3) mod 7"
    unfolding getDay_def weekday_shift [of "Day t"] by simp
  then have "startOfWeek t 1 = setHours (setDate t (getDate t - (Day t + 3) mod 7)) 0 0 0 0"
    by (simp only: startOfWeek_def Let_def)
  then show ?thesis
    by (simp add: setHours_def MakeTime_0 Day_setDate)
qed

lemma endOfWeek_Day: "endOfWeek t 1 = MakeDate (Day t + (6 - (Day t + 3) mod 7)) (msPerDay - 1)"
proof -
  have "(if getDay t < 1 then - 7 else 0) + 6 - (getDay t - 1) = 6 - (Day t + 3) mod 7"
    unfolding getDay_def weekday_shift [of "Day t"] by simp
  then have "endOfWeek t 1 = setHours (setDate t (getDate t + (6 - (Day t + 3) mod 7))) 23 59 59 999"
    by (simp only: endOfWeek_def Let_def)
  then show ?thesis
    by (simp add: setHours_def MakeTime_end Day_setDate)
qed


subsection \<open>The grid of \<open>MonthView\<close>\<close>

record MonthDay =
  day :: string
  date :: string
  today :: bool
  offer :: bool
  order :: bool
  isCurrentMonth :: bool

text \<open>
  The object pushed for one day of the loop. \<open>t\<close> is the loop variable, \<open>from\<close>,
  \<open>offerDays\<close> and \<open>orderDays\<close> are the component's props; \<open>now\<close> stands for
  \<open>new Date()\<close>, read once for the whole build. \<open>Array.includes\<close> on strings is list
  membership.
\<close>

definition monthDay :: "Date \<Rightarrow> Date \<Rightarrow> Date \<Rightarrow> string list \<Rightarrow> string list \<Rightarrow> MonthDay" where
  "monthDay t from now offerDays orderDays =
     \<lparr> day = format_dd t,
       date = format_DayFormat t,
       today = isSameDay t now,
       offer = (format_DayFormat t \<in> set offerDays),
       order = (format_DayFormat t \<in> set orderDays),
       isCurrentMonth = isSameMonth t from \<rparr>"

text \<open>
  The \<open>while\<close> loop of lines 87 to 98: the cells pushed from the current value of the
  loop variable on, in the order of pushing.
\<close>

function daysLoop ::
  "Date \<Rightarrow> Date \<Rightarrow> Date \<Rightarrow> Date \<Rightarrow> string list \<Rightarrow> string list \<Rightarrow> MonthDay list" where
  "daysLoop t lastSunday from now offerDays orderDays =
     (if t \<le> lastSunday \<or> isSameDay t lastSunday
      then monthDay t from now offerDays orderDays
             # daysLoop (addDays t 1) lastSunday from now offerDays orderDays
      else [])"
  by pat_completeness auto
termination
proof (relation "measure (\<lambda>(t, lastSunday, from, now, offerDays, orderDays).
    nat (Day lastSunday - Day t + 1))")
  show "wf (measure (\<lambda>(t, lastSunday, from, now, offerDays, orderDays).
    nat (Day lastSunday - Day t + 1)))"
    by simp
next
  fix t lastSunday ref now :: Date and offerDays orderDays :: "string list"
  assume "t \<le> lastSunday \<or> isSameDay t lastSunday"
  then have "Day t \<le> Day lastSunday" by (simp only: loop_condition)
  moreover have "Day (addDays t 1) = Day t + 1"
    using Day_add_days [of t 1] by (simp add: addDays_eq)
  ultimately show "((addDays t 1, lastSunday, ref, now, offerDays, orderDays),
      (t, lastSunday, ref, now, offerDays, orderDays))
    \<in> measure (\<lambda>(t, lastSunday, from, now, offerDays, orderDays).
        nat (Day lastSunday - Day t + 1))"
    by simp
qed

declare daysLoop.simps [simp del]

text \<open>The array \<open>days\<close> of the component (lines 78 to 98).\<close>

definition monthViewDays :: "Date \<Rightarrow> Date \<Rightarrow> string list \<Rightarrow> string list \<Rightarrow> MonthDay list" where
  "monthViewDays from now offerDays orderDays =
     (let monthStart = startOfMonth from;
          monthEnd = endOfMonth from;
          firstMonday = startOfWeek monthStart 1;
          lastSunday = endOfWeek monthEnd 1
      in daysLoop firstMonday lastSunday from now offerDays orderDays)"

text \<open>The \<open>for\<close> loop of lines 100 to 103: \<open>days\<close> cut into slices of seven.\<close>

function weeksLoop :: "nat \<Rightarrow> MonthDay list \<Rightarrow> MonthDay list list" where
  "weeksLoop i days =
     (if i < length days then take 7 (drop i days) # weeksLoop (i + 7) days else [])"
  by pat_completeness auto
termination
  by (relation "measure (\<lambda>(i, days). length days - i)") auto

declare weeksLoop.simps [simp del]

definition monthViewWeeks :: "MonthDay list \<Rightarrow> MonthDay list list" where
  "monthViewWeeks days = weeksLoop 0 days"


subsection \<open>The component's state and handlers\<close>

text \<open>
  The three \<open>useState\<close> cells of \<open>MonthView\<close>. \<open>width\<close> is the layout width (a number
  set by \<open>onLayout\<close>, kept as an integer here; no handler below reads or writes it).
  The popup type is the union \<open>'success' | 'error'\<close>.
\<close>

datatype PopupType = success | error

record Popup =
  visible :: bool
  message :: string
  ptype :: PopupType

record State =
  width :: int
  selectedDate :: "string option"
  popup :: Popup

definition initialState :: State where
  "initialState =
     \<lparr> width = 0, selectedDate = None,
       popup = \<lparr> visible = False, message = [], ptype = success \<rparr> \<rparr>"

definition handleDayPress :: "MonthDay \<Rightarrow> State \<Rightarrow> State" where
  "handleDayPress dayData st =
     (if isCurrentMonth dayData then st\<lparr>selectedDate := Some (date dayData)\<rparr> else st)"

definition showPopup :: "string \<Rightarrow> PopupType \<Rightarrow> State \<Rightarrow> State" where
  "showPopup msg tp st = st\<lparr>popup := \<lparr> visible = True, message = msg, ptype = tp \<rparr>\<rparr>"

text \<open>The \<open>OK\<close> button of the popup and \<open>onRequestClose\<close>: \<open>{...prev, visible: false}\<close>.\<close>

definition dismissPopup :: "State \<Rightarrow> State" where
  "dismissPopup st = st\<lparr>popup := (popup st)\<lparr>visible := False\<rparr>\<rparr>"

text \<open>
  The three popup texts (Polish; letters outside ASCII are written as their UTF-8
  bytes): the order was placed, the server answered with an error, the connection
  failed.
\<close>

definition msgOrderPlaced :: string where
  "msgOrderPlaced =
     ''Zam'' @ [CHR 0xC3, CHR 0xB3] @ ''wienie zosta'' @ [CHR 0xC5, CHR 0x82] @ ''o z''
       @ [CHR 0xC5, CHR 0x82] @ ''o'' @ [CHR 0xC5, CHR 0xBC] @ ''one pomy''
       @ [CHR 0xC5, CHR 0x9B] @ ''lnie!''"

definition msgOrderFailed :: string where
  "msgOrderFailed =
     ''Wyst'' @ [CHR 0xC4, CHR 0x85] @ ''pi'' @ [CHR 0xC5, CHR 0x82] @ '' b''
       @ [CHR 0xC5, CHR 0x82, CHR 0xC4, CHR 0x85] @ ''d podczas sk''
       @ [CHR 0xC5, CHR 0x82] @ ''adania zam'' @ [CHR 0xC3, CHR 0xB3] @ ''wienia''"

definition msgConnectionFailed :: string where
  "msgConnectionFailed =
     ''B'' @ [CHR 0xC5, CHR 0x82, CHR 0xC4, CHR 0x85] @ ''d po'' @ [CHR 0xC5, CHR 0x82, CHR 0xC4, CHR 0x85]
       @ ''czenia. Sprawd'' @ [CHR 0xC5, CHR 0xBA] @ '' internet i spr''
       @ [CHR 0xC3, CHR 0xB3] @ ''buj ponownie''"

text \<open>
  What \<open>await fetch(...)\<close> and \<open>await response.json()\<close> can do: the fetch promise
  rejects (a transport failure), or a response arrives with its status and a body that
  parses as JSON or not (\<open>response.json()\<close> rejects then, inside the same \<open>try\<close>).
  \<open>response.ok\<close> is true for the statuses 200 to 299.
\<close>

datatype FetchResult = Rejected | Response int bool

definition responseOk :: "int \<Rightarrow> bool" where
  "responseOk status \<longleftrightarrow> 200 \<le> status \<and> status \<le> 299"

text \<open>
  What the handler does to the world: the POST request (URL, the \<open>date\<close> and the
  \<open>timestamp\<close> of the JSON body) and the console lines (their texts are left out).
\<close>

datatype Effect = FetchPost string string Date | ConsoleLog | ConsoleError

definition orderUrl :: string where
  "orderUrl = ''https://example.com/order''"

text \<open>
  \<open>handleOrder\<close>. \<open>st\<close> is the state of the render whose closure runs (it reads
  \<open>selectedDate\<close> and \<open>days\<close>), \<open>now\<close> the clock at the call, \<open>res\<close> what the network
  does, and \<open>cur\<close> the state at the time the handler calls \<open>setPopup\<close>, after the
  awaits. A JavaScript string is truthy when it is not empty; \<open>Array.find\<close> returns
  the first match, and \<open>selectedDay?.offer\<close> is falsy when there is none.
\<close>

definition handleOrder ::
  "State \<Rightarrow> MonthDay list \<Rightarrow> Date \<Rightarrow> FetchResult \<Rightarrow> State \<Rightarrow> Effect list \<times> State" where
  "handleOrder st days now res cur =
     (case selectedDate st of
        None \<Rightarrow> ([], cur)
      | Some sel \<Rightarrow>
          if sel = [] then ([], cur)
          else
            (case find (\<lambda>d. date d = sel) days of
               None \<Rightarrow> ([], cur)
             | Some selectedDay \<Rightarrow>
                 if offer selectedDay then
                   (case res of
                      Rejected \<Rightarrow>
                        ([FetchPost orderUrl sel now, ConsoleError],
                         showPopup msgConnectionFailed error cur)
                    | Response status parses \<Rightarrow>
                        if responseOk status then
                          (if parses then
                             ([FetchPost orderUrl sel now, ConsoleLog],
                              showPopup msgOrderPlaced success cur)
                           else
                             ([FetchPost orderUrl sel now, ConsoleError],
                              showPopup msgConnectionFailed error cur))
                        else
                          ([FetchPost orderUrl sel now, ConsoleError],
                           showPopup msgOrderFailed error cur))
                 else ([], cur)))"

text \<open>
  \<open>getSelectedDayInfo\<close>, without its \<open>text\<close> field (the caption with the selected
  date in Polish, which no claim below is about).
\<close>

record SelectedDayInfo =
  showButton :: bool
  isAvailable :: bool

definition getSelectedDayInfo :: "State \<Rightarrow> MonthDay list \<Rightarrow> SelectedDayInfo option" where
  "getSelectedDayInfo st days =
     (case selectedDate st of
        None \<Rightarrow> None
      | Some sel \<Rightarrow>
          if sel = [] then None
          else
            Some \<lparr> showButton = True,
                   isAvailable =
                     (case find (\<lambda>d. date d = sel) days of
                        None \<Rightarrow> False
                      | Some selectedDay \<Rightarrow> offer selectedDay) \<rparr>)"

text \<open>
  The order button is rendered when \<open>selectedDayInfo\<close> is not null, and it is enabled
  (\<open>disabled={!selectedDayInfo.isAvailable}\<close>, \<open>onPress\<close> bound to \<open>handleOrder\<close>) when
  \<open>isAvailable\<close> holds.
\<close>

definition orderButtonEnabled :: "State \<Rightarrow> MonthDay list \<Rightarrow> bool" where
  "orderButtonEnabled st days =
     (case getSelectedDayInfo st days of None \<Rightarrow> False | Some info \<Rightarrow> isAvailable info)"


subsection \<open>The grid as a list of consecutive days\<close>

lemma daysLoop_upto:
  "daysLoop t lastSunday from now offerDays orderDays =
     map (\<lambda>D. monthDay (MakeDate D (TimeWithinDay t)) from now offerDays orderDays)
       [Day t..Day lastSunday]"
proof (induction t lastSunday "from" now offerDays orderDays rule: daysLoop.induct)
  case (1 t lastSunday ref now offerDays orderDays)
  show ?case
  proof (cases "Day t \<le> Day lastSunday")
    case True
    then have c: "t \<le> lastSunday \<or> isSameDay t lastSunday" by (simp only: loop_condition)
    have n: "Day (addDays t 1) = Day t + 1"
      using Day_add_days [of t 1] by (simp add: addDays_eq)
    have w: "TimeWithinDay (addDays t 1) = TimeWithinDay t"
      by (simp add: addDays_eq TimeWithinDay_def)
    have u: "[Day t..Day lastSunday] = Day t # [Day t + 1..Day lastSunday]"
      using True by (simp add: upto_rec1)
    show ?thesis
      using c "1.IH" [OF c]
      by (subst daysLoop.simps) (simp add: n w u MakeDate_Day)
  next
    case False
    then have c: "\<not> (t \<le> lastSunday \<or> isSameDay t lastSunday)"
      by (simp add: loop_condition)
    show ?thesis
      using False
      by (simp add: daysLoop.simps [of t lastSunday ref now offerDays orderDays] c)
  qed
qed

text \<open>The day numbers of the first and the last cell.\<close>

definition gridFirst :: "Date \<Rightarrow> int" where
  "gridFirst ref = Day (startOfWeek (startOfMonth ref) 1)"

definition gridLast :: "Date \<Rightarrow> int" where
  "gridLast ref = Day (endOfWeek (endOfMonth ref) 1)"

lemma Day_MakeDate_0: "Day (MakeDate d 0) = d"
  by (rule Day_MakeDate) (simp_all add: msPerDay_def)

lemma TimeWithinDay_MakeDate_0: "TimeWithinDay (MakeDate d 0) = 0"
  by (simp add: TimeWithinDay_def MakeDate_def)

lemma Day_MakeDate_end: "Day (MakeDate d (msPerDay - 1)) = d"
  by (rule Day_MakeDate) (simp_all add: msPerDay_def)

lemma monthViewDays_upto:
  "monthViewDays ref now offerDays orderDays =
     map (\<lambda>D. monthDay (MakeDate D 0) ref now offerDays orderDays) [gridFirst ref..gridLast ref]"
proof -
  have "TimeWithinDay (startOfWeek (startOfMonth ref) 1) = 0"
    by (simp add: startOfWeek_Day TimeWithinDay_MakeDate_0)
  then show ?thesis
    by (simp add: monthViewDays_def Let_def daysLoop_upto gridFirst_def gridLast_def)
qed

definition monthFirst :: "Date \<Rightarrow> int" where
  "monthFirst ref = Day (startOfMonth ref)"

definition monthLast :: "Date \<Rightarrow> int" where
  "monthLast ref = Day (endOfMonth ref)"

lemma monthFirst_eq:
  "monthFirst ref =
     DayFromYear (getFullYear ref) + monthOffset (leapDays (getFullYear ref)) (getMonth ref)"
  by (simp add: monthFirst_def startOfMonth_fields Day_MakeDate_0)

lemma monthLast_eq:
  "monthLast ref =
     DayFromYear (getFullYear ref) + monthOffset (leapDays (getFullYear ref)) (getMonth ref + 1) - 1"
  by (simp add: monthLast_def endOfMonth_fields Day_MakeDate_end)

lemma getMonth_range: "0 \<le> getMonth t" "getMonth t \<le> 11"
  using MonthFromDay_range [of "Day t"] by (simp_all add: getMonth_def)

lemma month_length:
  "monthFirst ref \<le> monthLast ref" "monthLast ref \<le> monthFirst ref + 30"
proof -
  have "leapDays (getFullYear ref) = 0 \<or> leapDays (getFullYear ref) = 1"
    by (rule leapDays_cases)
  then have "monthOffset (leapDays (getFullYear ref)) (getMonth ref) + 1
      \<le> monthOffset (leapDays (getFullYear ref)) (getMonth ref + 1) \<and>
      monthOffset (leapDays (getFullYear ref)) (getMonth ref + 1)
      \<le> monthOffset (leapDays (getFullYear ref)) (getMonth ref) + 31"
    using month_cases [OF getMonth_range [of ref]]
    by (auto simp add: monthOffset_def)
  then show "monthFirst ref \<le> monthLast ref" "monthLast ref \<le> monthFirst ref + 30"
    by (simp_all add: monthFirst_eq monthLast_eq)
qed

lemma gridFirst_eq: "gridFirst ref = monthFirst ref - (monthFirst ref + 3) mod 7"
  by (simp add: gridFirst_def monthFirst_def startOfWeek_Day Day_MakeDate_0)

lemma gridLast_eq: "gridLast ref = monthLast ref + (6 - (monthLast ref + 3) mod 7)"
  by (simp add: gridLast_def monthLast_def endOfWeek_Day Day_MakeDate_end)

lemma grid_bounds:
  "gridFirst ref \<le> monthFirst ref" "monthFirst ref \<le> gridFirst ref + 6"
  "monthLast ref \<le> gridLast ref" "gridLast ref \<le> monthLast ref + 6"
proof -
  have a: "0 \<le> (monthFirst ref + 3) mod 7" "(monthFirst ref + 3) mod 7 < 7" by simp_all
  have b: "0 \<le> (monthLast ref + 3) mod 7" "(monthLast ref + 3) mod 7 < 7" by simp_all
  show "gridFirst ref \<le> monthFirst ref" "monthFirst ref \<le> gridFirst ref + 6"
    using a by (simp_all add: gridFirst_eq)
  show "monthLast ref \<le> gridLast ref" "gridLast ref \<le> monthLast ref + 6"
    using b by (simp_all add: gridLast_eq)
qed






lemma firstMonday_eq: "startOfWeek (startOfMonth ref) 1 = MakeDate (gridFirst ref) 0"
  by (simp add: startOfWeek_Day gridFirst_eq monthFirst_def)

lemma addDays_MakeDate: "addDays (MakeDate d tm) k = MakeDate (d + k) tm"
  by (simp add: addDays_eq MakeDate_def algebra_simps)

lemma grid_length:
  "length (monthViewDays ref now offerDays orderDays) = nat (gridLast ref - gridFirst ref + 1)"
  by (simp add: monthViewDays_upto)


lemma getDay_MakeDate_0: "getDay (MakeDate d 0) = (d + 4) mod 7"
  by (simp add: getDay_def Day_MakeDate_0)

subsection \<open>The cells of the reference month\<close>

lemma isSameMonth_iff:
  "isSameMonth (MakeDate D 0) ref \<longleftrightarrow> monthFirst ref \<le> D \<and> D \<le> monthLast ref"
proof
  assume "isSameMonth (MakeDate D 0) ref"
  then have y: "YearFromDay D = getFullYear ref" and m: "MonthFromDay D = getMonth ref"
    by (simp_all add: isSameMonth_def getFullYear_def getMonth_def Day_MakeDate_0)
  have "D = DayFromYear (getFullYear ref)
      + monthOffset (leapDays (getFullYear ref)) (getMonth ref) + DateFromDay D - 1"
    using day_decomp [of D] by (simp add: y m)
  moreover have "1 \<le> DateFromDay D"
    "DateFromDay D \<le> monthOffset (leapDays (getFullYear ref)) (getMonth ref + 1)
        - monthOffset (leapDays (getFullYear ref)) (getMonth ref)"
    using DateFromDay_range [of D] by (simp_all add: InLeapYear_leapDays y m)
  ultimately show "monthFirst ref \<le> D \<and> D \<le> monthLast ref"
    by (simp add: monthFirst_eq monthLast_eq)
next
  assume r: "monthFirst ref \<le> D \<and> D \<le> monthLast ref"
  define dt where "dt = D - monthFirst ref + 1"
  have "YearFromDay D = getFullYear ref" "MonthFromDay D = getMonth ref"
  proof -
    have dt: "1 \<le> dt"
      "dt \<le> monthOffset (leapDays (getFullYear ref)) (getMonth ref + 1)
          - monthOffset (leapDays (getFullYear ref)) (getMonth ref)"
      using r by (simp_all add: dt_def monthFirst_eq monthLast_eq)
    have D: "D = DayFromYear (getFullYear ref)
        + monthOffset (leapDays (getFullYear ref)) (getMonth ref) + dt - 1"
      by (simp add: dt_def monthFirst_eq)
    show "YearFromDay D = getFullYear ref" "MonthFromDay D = getMonth ref"
      using fields_of_day(1,2) [OF getMonth_range [of ref] dt D] by simp_all
  qed
  then show "isSameMonth (MakeDate D 0) ref"
    by (simp add: isSameMonth_def getFullYear_def getMonth_def Day_MakeDate_0)
qed


subsection \<open>Date keys\<close>

lemma digits_distinct: "distinct ''0123456789''"
  by simp

lemma digit_inj:
  "k < 10 \<Longrightarrow> k' < 10 \<Longrightarrow> ''0123456789'' ! k = ''0123456789'' ! k' \<Longrightarrow> k = k'"
  using digits_distinct by (simp add: nth_eq_iff_index_eq del: distinct.simps)

lemma numberToString_small: "n < 10 \<Longrightarrow> numberToString n = [''0123456789'' ! n]"
  by (subst numberToString.simps) simp

lemma numberToString_two:
  "10 \<le> n \<Longrightarrow> n < 100 \<Longrightarrow>
     numberToString n = [''0123456789'' ! (n div 10), ''0123456789'' ! (n mod 10)]"
  by (subst numberToString.simps) (simp add: numberToString_small)

lemma addLeadingZeros_2:
  assumes "0 \<le> n" "n < 100"
  shows "addLeadingZeros n 2 =
     [''0123456789'' ! (nat n div 10), ''0123456789'' ! (nat n mod 10)]"
proof (cases "n < 10")
  case True
  with assms show ?thesis
    by (simp add: addLeadingZeros_def padStart_def numberToString_small)
next
  case False
  with assms show ?thesis
    by (simp add: addLeadingZeros_def padStart_def numberToString_two)
qed

lemma addLeadingZeros_2_inj:
  assumes a: "0 \<le> a" "a < 100" and b: "0 \<le> b" "b < 100"
    and e: "addLeadingZeros a 2 = addLeadingZeros b 2"
  shows "a = b"
proof -
  have "nat a div 10 < 10" "nat b div 10 < 10" "nat a mod 10 < 10" "nat b mod 10 < 10"
    using a b by simp_all
  moreover have "''0123456789'' ! (nat a div 10) = ''0123456789'' ! (nat b div 10)"
    "''0123456789'' ! (nat a mod 10) = ''0123456789'' ! (nat b mod 10)"
    using e by (simp_all only: addLeadingZeros_2 [OF a] addLeadingZeros_2 [OF b] list.inject)
  ultimately have "nat a div 10 = nat b div 10" "nat a mod 10 = nat b mod 10"
    by (simp_all only: digit_inj)
  then have "nat a = nat b" by (metis div_mult_mod_eq)
  then show ?thesis using a b by simp
qed

lemma length_addLeadingZeros_2: "0 \<le> n \<Longrightarrow> n < 100 \<Longrightarrow> length (addLeadingZeros n 2) = 2"
  by (simp add: addLeadingZeros_2)

lemma getDate_range: "1 \<le> getDate t" "getDate t \<le> 31"
proof -
  have l: "InLeapYear (Day t) = 0 \<or> InLeapYear (Day t) = 1"
    by (simp add: InLeapYear_def)
  have "monthOffset (InLeapYear (Day t)) (MonthFromDay (Day t) + 1)
      - monthOffset (InLeapYear (Day t)) (MonthFromDay (Day t)) \<le> 31"
    using month_cases [OF MonthFromDay_range [of "Day t"]] l
    by (auto simp add: monthOffset_def)
  then show "1 \<le> getDate t" "getDate t \<le> 31"
    using DateFromDay_range [of "Day t"] by (simp_all add: getDate_def)
qed

lemma append_suffix_eq:
  assumes "xs @ ys = xs' @ ys'" "length ys = length ys'"
  shows "xs = xs'" "ys = ys'"
  using assms by simp_all

lemma format_DayFormat_fields:
  assumes "format_DayFormat s = format_DayFormat t"
  shows "getMonth s = getMonth t" "getDate s = getDate t"
proof -
  have ms: "0 \<le> getMonth s + 1" "getMonth s + 1 < 100"
    and mt: "0 \<le> getMonth t + 1" "getMonth t + 1 < 100"
    using getMonth_range [of s] getMonth_range [of t] by simp_all
  have ds: "0 \<le> getDate s" "getDate s < 100" and dt: "0 \<le> getDate t" "getDate t < 100"
    using getDate_range [of s] getDate_range [of t] by simp_all
  have "(format_yyyy s @ ''-'' @ format_MM s @ ''-'') @ format_dd s
      = (format_yyyy t @ ''-'' @ format_MM t @ ''-'') @ format_dd t"
    using assms by (simp add: format_DayFormat_def)
  moreover have "length (format_dd s) = length (format_dd t)"
    by (simp add: format_dd_def length_addLeadingZeros_2 ds dt)
  ultimately have e: "format_yyyy s @ ''-'' @ format_MM s @ ''-''
      = format_yyyy t @ ''-'' @ format_MM t @ ''-''" and d: "format_dd s = format_dd t"
    by (rule append_suffix_eq)+
  from d show "getDate s = getDate t"
    unfolding format_dd_def by (rule addLeadingZeros_2_inj [OF ds dt])
  have "(format_yyyy s @ ''-'') @ (format_MM s @ ''-'')
      = (format_yyyy t @ ''-'') @ (format_MM t @ ''-'')"
    using e by simp
  moreover have "length (format_MM s @ ''-'') = length (format_MM t @ ''-'')"
    by (simp add: format_MM_def length_addLeadingZeros_2 ms mt)
  ultimately have "format_MM s @ ''-'' = format_MM t @ ''-''"
    by (rule append_suffix_eq(2))
  then have "format_MM s = format_MM t" by simp
  then have "getMonth s + 1 = getMonth t + 1"
    unfolding format_MM_def by (rule addLeadingZeros_2_inj [OF ms mt])
  then show "getMonth s = getMonth t" by simp
qed

lemma DayFromYear_gap: "y < y' \<Longrightarrow> DayFromYear y + 365 \<le> DayFromYear y'"
  using DayFromYear_mono [of "y + 1" y'] DaysInYear_bounds(1) [of y]
  by (simp add: DayFromYear_Suc)

lemma monthOffset_leap_diff:
  assumes "l = 0 \<or> l = 1" "l' = 0 \<or> l' = 1"
  shows "monthOffset l m \<le> monthOffset l' m + 1"
  using assms by (auto simp add: monthOffset_def)

lemma same_fields_less:
  assumes m: "MonthFromDay a = MonthFromDay b" and d: "DateFromDay a = DateFromDay b"
    and y: "YearFromDay a < YearFromDay b"
  shows "a + 364 \<le> b"
proof -
  have "monthOffset (leapDays (YearFromDay a)) (MonthFromDay a)
      \<le> monthOffset (leapDays (YearFromDay b)) (MonthFromDay a) + 1"
    by (rule monthOffset_leap_diff) (rule leapDays_cases)+
  then show ?thesis
    using day_decomp [of a] day_decomp [of b] DayFromYear_gap [OF y] by (simp add: m d)
qed

lemma same_fields_close:
  assumes m: "MonthFromDay a = MonthFromDay b" and d: "DateFromDay a = DateFromDay b"
    and c: "a < b + 364" "b < a + 364"
  shows "a = b"
proof -
  have "\<not> YearFromDay a < YearFromDay b"
    using same_fields_less [OF m d] c by auto
  moreover have "\<not> YearFromDay b < YearFromDay a"
    using same_fields_less [OF m [symmetric] d [symmetric]] c by auto
  ultimately have "YearFromDay a = YearFromDay b" by simp
  then show ?thesis
    using day_decomp [of a] day_decomp [of b] by (simp add: m d)
qed

lemma grid_width: "gridLast ref \<le> gridFirst ref + 42"
  using grid_bounds [of ref] month_length [of ref] by simp

lemma date_keys_inj: "inj_on (\<lambda>D. format_DayFormat (MakeDate D 0)) {gridFirst ref..gridLast ref}"
proof (rule inj_onI)
  fix a b
  assume a: "a \<in> {gridFirst ref..gridLast ref}" and b: "b \<in> {gridFirst ref..gridLast ref}"
    and e: "format_DayFormat (MakeDate a 0) = format_DayFormat (MakeDate b 0)"
  have "MonthFromDay a = MonthFromDay b" "DateFromDay a = DateFromDay b"
    using format_DayFormat_fields [OF e]
    by (simp_all add: getMonth_def getDate_def Day_MakeDate_0)
  moreover have "a < b + 364" "b < a + 364"
    using a b grid_width [of ref] by simp_all
  ultimately show "a = b" by (rule same_fields_close)
qed

lemma date_monthDay: "date (monthDay t ref now offerDays orderDays) = format_DayFormat t"
  by (simp add: monthDay_def)

lemma isCurrentMonth_monthDay:
  "isCurrentMonth (monthDay t ref now offerDays orderDays) = isSameMonth t ref"
  by (simp add: monthDay_def)

lemma grid_keys_distinct: "distinct (map date (monthViewDays ref now offerDays orderDays))"
  using date_keys_inj [of ref]
  by (simp add: monthViewDays_upto comp_def date_monthDay distinct_map)

lemma length_weeksLoop: "length (weeksLoop i days) = (length days - i + 6) div 7"
proof (induction i days rule: weeksLoop.induct)
  case (1 i days)
  show ?case
  proof (cases "i < length days")
    case True
    have "(length days - i + 6) div 7 = (length days - (i + 7) + 6) div 7 + 1"
    proof (cases "i + 7 \<le> length days")
      case True
      then have "length days - i + 6 = (length days - (i + 7) + 6) + 7" by simp
      then show ?thesis by (simp only: div_add_self2)
    next
      case False
      with \<open>i < length days\<close> have "(length days - i + 6) div 7 = 1"
        by (intro div_nat_eqI) simp_all
      with False show ?thesis by simp
    qed
    then show ?thesis
      using True "1.IH" by (subst weeksLoop.simps) simp
  next
    case False
    then show ?thesis by (subst weeksLoop.simps) simp
  qed
qed

lemma march_2024_bounds:
  assumes "getFullYear ref = 2024" "getMonth ref = 2"
  shows "gridFirst ref = 19779" "gridLast ref = 19813"
proof -
  have f: "monthFirst ref = 19783"
    by (simp add: monthFirst_eq assms DayFromYear_def leapDays_def DaysInYear_def monthOffset_def)
  have l: "monthLast ref = 19813"
    by (simp add: monthLast_eq assms DayFromYear_def leapDays_def DaysInYear_def monthOffset_def)
  show "gridFirst ref = 19779" by (simp add: gridFirst_eq f)
  show "gridLast ref = 19813" by (simp add: gridLast_eq l)
qed

lemma key_2024_02_26: "format_DayFormat (MakeDate 19779 0) = ''2024-02-26''"
  by code_simp

lemma key_2024_03_31: "format_DayFormat (MakeDate 19813 0) = ''2024-03-31''"
  by code_simp

lemma key_2024_03_10: "format_DayFormat (MakeDate 19792 0) = ''2024-03-10''"
  by code_simp

lemma fields_2024_03_01: "getFullYear 1709251200000 = 2024" "getMonth 1709251200000 = 2"
  "getDate 1709251200000 = 1" "getDay 1709251200000 = 5"
  by code_simp+

lemma fields_2024_03_31: "getFullYear 1711886400000 = 2024" "getMonth 1711886400000 = 2"
  "getDate 1711886400000 = 31"
  by code_simp+

text \<open>
  C6. For a reference date in March 2024 (2024-03-01 in particular, at any time of the
  day) the grid has 35 cells in 5 weeks, its first cell is the cell of 2024-02-26, a
  Monday, and its last cell the cell of 2024-03-31, a Sunday.
\<close>

theorem C6_march_2024:
  assumes "getFullYear ref = 2024" and "getMonth ref = 2"
  shows "length (monthViewDays ref now offerDays orderDays) = 35 \<and>
    length (monthViewWeeks (monthViewDays ref now offerDays orderDays)) = 5 \<and>
    hd (monthViewDays ref now offerDays orderDays)
      = monthDay (MakeDate 19779 0) ref now offerDays orderDays \<and>
    date (hd (monthViewDays ref now offerDays orderDays)) = ''2024-02-26'' \<and>
    getDay (MakeDate 19779 0) = 1 \<and>
    last (monthViewDays ref now offerDays orderDays)
      = monthDay (MakeDate 19813 0) ref now offerDays orderDays \<and>
    date (last (monthViewDays ref now offerDays orderDays)) = ''2024-03-31'' \<and>
    getDay (MakeDate 19813 0) = 0"
proof -
  note b = march_2024_bounds [OF assms]
  have g: "monthViewDays ref now offerDays orderDays =
      map (\<lambda>D. monthDay (MakeDate D 0) ref now offerDays orderDays) [19779..19813]"
    by (simp only: monthViewDays_upto b)
  have len: "length (monthViewDays ref now offerDays orderDays) = 35"
    by (simp add: g)
  have weeks: "length (monthViewWeeks (monthViewDays ref now offerDays orderDays)) = 5"
    by (simp add: monthViewWeeks_def length_weeksLoop len)
  have h: "hd (monthViewDays ref now offerDays orderDays)
      = monthDay (MakeDate 19779 0) ref now offerDays orderDays"
    by (simp add: g upto_rec1 [of 19779 19813])
  have l: "last (monthViewDays ref now offerDays orderDays)
      = monthDay (MakeDate 19813 0) ref now offerDays orderDays"
    by (simp add: g upto_rec2 [of 19779 19813])
  have mon: "getDay (MakeDate 19779 0) = 1" and sun: "getDay (MakeDate 19813 0) = 0"
    by (simp_all add: getDay_MakeDate_0)
  show ?thesis
    using len weeks h mon l sun
    by (simp add: date_monthDay key_2024_02_26 key_2024_03_31)
qed

theorem C6_march_2024_witness:
  "getFullYear 1709251200000 = 2024 \<and> getMonth 1709251200000 = 2 \<and>
   getDate 1709251200000 = 1 \<and>
   length (monthViewDays 1709251200000 0 [] []) = 35 \<and>
   date (hd (monthViewDays 1709251200000 0 [] [])) = ''2024-02-26'' \<and>
   date (last (monthViewDays 1709251200000 0 [] [])) = ''2024-03-31''"
  using C6_march_2024 [OF fields_2024_03_01(1,2), of 0 "[]" "[]"] fields_2024_03_01
  by (simp add: date_monthDay key_2024_02_26 key_2024_03_31)

text \<open>
  C8. Two reference dates with the same year and month give the same grid (for the
  same current date and the same key lists).
\<close>

theorem C8_grid_depends_on_month_only:
  assumes "getFullYear a = getFullYear b" and "getMonth a = getMonth b"
  shows "monthViewDays a now offerDays orderDays = monthViewDays b now offerDays orderDays"
proof -
  have "gridFirst a = gridFirst b" "gridLast a = gridLast b"
    by (simp_all add: gridFirst_eq gridLast_eq monthFirst_eq monthLast_eq assms)
  moreover have "monthDay t a now offerDays orderDays = monthDay t b now offerDays orderDays"
    for t
    by (simp add: monthDay_def isSameMonth_def assms)
  ultimately show ?thesis by (simp add: monthViewDays_upto)
qed

theorem C8_grid_depends_on_month_only_witness:
  "getFullYear 1709251200000 = 2024 \<and> getFullYear 1711886400000 = 2024 \<and>
   getMonth 1709251200000 = 2 \<and> getMonth 1711886400000 = 2 \<and>
   getDate 1709251200000 = 1 \<and> getDate 1711886400000 = 31 \<and>
   monthViewDays 1709251200000 0 [] [] = monthViewDays 1711886400000 0 [] []"
  using C8_grid_depends_on_month_only [of 1709251200000 1711886400000 0 "[]" "[]"]
    fields_2024_03_01 fields_2024_03_31
  by simp

text \<open>
  C3. In every cell of the grid, \<open>offer\<close> says whether the cell's date key is a member
  of \<open>offerDays\<close> and \<open>order\<close> whether it is a member of \<open>orderDays\<close>; with
  \<open>offerDays = ["2024-03-10"]\<close> the cells with \<open>offer\<close> are those whose key is that
  string.
\<close>

theorem C3_flags_are_membership:
  assumes "c \<in> set (monthViewDays ref now offerDays orderDays)"
  shows "offer c = (date c \<in> set offerDays) \<and> order c = (date c \<in> set orderDays) \<and>
    (offerDays = [''2024-03-10''] \<longrightarrow> offer c = (date c = ''2024-03-10''))"
proof -
  from assms obtain D where "c = monthDay (MakeDate D 0) ref now offerDays orderDays"
    by (auto simp add: monthViewDays_upto)
  then show ?thesis by (auto simp add: monthDay_def)
qed

theorem C3_flags_are_membership_witness:
  "monthDay (MakeDate 19792 0) 1709251200000 0 [''2024-03-10''] []
     \<in> set (monthViewDays 1709251200000 0 [''2024-03-10''] []) \<and>
   date (monthDay (MakeDate 19792 0) 1709251200000 0 [''2024-03-10''] []) = ''2024-03-10'' \<and>
   offer (monthDay (MakeDate 19792 0) 1709251200000 0 [''2024-03-10''] []) \<and>
   \<not> order (monthDay (MakeDate 19792 0) 1709251200000 0 [''2024-03-10''] []) \<and>
   monthDay (MakeDate 19779 0) 1709251200000 0 [''2024-03-10''] []
     \<in> set (monthViewDays 1709251200000 0 [''2024-03-10''] []) \<and>
   date (monthDay (MakeDate 19779 0) 1709251200000 0 [''2024-03-10''] []) = ''2024-02-26'' \<and>
   \<not> offer (monthDay (MakeDate 19779 0) 1709251200000 0 [''2024-03-10''] [])"
proof -
  note b = march_2024_bounds [OF fields_2024_03_01(1,2)]
  have m: "monthDay (MakeDate 19792 0) 1709251200000 0 [''2024-03-10''] []
      \<in> set (monthViewDays 1709251200000 0 [''2024-03-10''] [])"
    and m': "monthDay (MakeDate 19779 0) 1709251200000 0 [''2024-03-10''] []
      \<in> set (monthViewDays 1709251200000 0 [''2024-03-10''] [])"
    by (simp_all add: monthViewDays_upto b)
  show ?thesis
    using C3_flags_are_membership [OF m] C3_flags_are_membership [OF m'] m m'
    by (simp add: date_monthDay key_2024_03_10 key_2024_02_26)
qed

subsection \<open>Shifting a date by months\<close>











subsection \<open>Claims about the handlers\<close>

lemma format_DayFormat_nonempty: "format_DayFormat t \<noteq> []"
  by (simp add: format_DayFormat_def)

lemma grid_key_nonempty:
  "c \<in> set (monthViewDays ref now offerDays orderDays) \<Longrightarrow> date c \<noteq> []"
  by (auto simp add: monthViewDays_upto date_monthDay format_DayFormat_nonempty)

lemma find_by_key:
  assumes "distinct (map date days)"
  shows "find (\<lambda>d. date d = k) days = Some c \<longleftrightarrow> c \<in> set days \<and> date c = k"
proof
  assume "find (\<lambda>d. date d = k) days = Some c"
  then show "c \<in> set days \<and> date c = k"
    by (auto simp add: find_Some_iff)
next
  assume c: "c \<in> set days \<and> date c = k"
  then obtain c' where f: "find (\<lambda>d. date d = k) days = Some c'"
    by (cases "find (\<lambda>d. date d = k) days") (auto simp add: find_None_iff)
  then have "c' \<in> set days" "date c' = k" by (auto simp add: find_Some_iff)
  moreover have "inj_on date (set days)" using assms by (simp add: distinct_map)
  ultimately have "c' = c" using c by (auto dest: inj_onD)
  with f show "find (\<lambda>d. date d = k) days = Some c" by simp
qed

lemma key_cells_singleton:
  assumes "distinct (map date days)" "c \<in> set days"
  shows "{c' \<in> set days. date c' = date c} = {c}"
proof -
  have "inj_on date (set days)" using assms(1) by (simp add: distinct_map)
  then show ?thesis using assms(2) by (auto dest: inj_onD)
qed

lemma orderButtonEnabled_find:
  "orderButtonEnabled st days \<longleftrightarrow>
     (\<exists>k c. selectedDate st = Some k \<and> k \<noteq> [] \<and> find (\<lambda>d. date d = k) days = Some c \<and> offer c)"
  by (auto simp add: orderButtonEnabled_def getSelectedDayInfo_def split: option.splits)

lemma handleOrder_guard:
  "\<not> orderButtonEnabled st days \<Longrightarrow> handleOrder st days now res cur = ([], cur)"
  by (auto simp add: orderButtonEnabled_find handleOrder_def split: option.splits)

lemma march_cells:
  "monthDay (MakeDate 19792 0) 1709251200000 now offerDays orderDays
     \<in> set (monthViewDays 1709251200000 now offerDays orderDays)"
  "monthDay (MakeDate 19779 0) 1709251200000 now offerDays orderDays
     \<in> set (monthViewDays 1709251200000 now offerDays orderDays)"
  by (simp_all add: monthViewDays_upto march_2024_bounds [OF fields_2024_03_01(1,2)])

lemma march_current:
  "isSameMonth (MakeDate 19792 0) 1709251200000" "\<not> isSameMonth (MakeDate 19779 0) 1709251200000"
  by code_simp+

text \<open>
  C4. Pressing a cell of the current month makes its date key the selected one and
  changes nothing else; pressing a cell outside the current month leaves the state as
  it is.
\<close>

theorem C4_select_only_in_month:
  "(isCurrentMonth c \<longrightarrow> handleDayPress c st = st\<lparr>selectedDate := Some (date c)\<rparr>) \<and>
   (\<not> isCurrentMonth c \<longrightarrow> handleDayPress c st = st)"
  by (simp add: handleDayPress_def)

theorem C4_select_only_in_month_witness:
  "isCurrentMonth (monthDay (MakeDate 19792 0) 1709251200000 0 [] []) \<and>
   handleDayPress (monthDay (MakeDate 19792 0) 1709251200000 0 [] []) initialState
     = initialState\<lparr>selectedDate := Some ''2024-03-10''\<rparr> \<and>
   \<not> isCurrentMonth (monthDay (MakeDate 19779 0) 1709251200000 0 [] []) \<and>
   handleDayPress (monthDay (MakeDate 19779 0) 1709251200000 0 [] [])
       (initialState\<lparr>selectedDate := Some ''2024-03-10''\<rparr>)
     = initialState\<lparr>selectedDate := Some ''2024-03-10''\<rparr>"
  using C4_select_only_in_month [of "monthDay (MakeDate 19792 0) 1709251200000 0 [] []" initialState]
    C4_select_only_in_month [of "monthDay (MakeDate 19779 0) 1709251200000 0 [] []"
      "initialState\<lparr>selectedDate := Some ''2024-03-10''\<rparr>"]
  by (simp add: isCurrentMonth_monthDay date_monthDay march_current key_2024_03_10)

text \<open>
  C5. On a grid built by the component, the order button is enabled exactly when a
  date key is selected, the grid has a cell with that key (it is then the only one)
  and that cell has \<open>offer\<close>. It is disabled when nothing is selected.
\<close>

theorem C5_orderable:
  "(orderButtonEnabled st (monthViewDays ref now offerDays orderDays) \<longleftrightarrow>
      (\<exists>k c. selectedDate st = Some k \<and>
         {c' \<in> set (monthViewDays ref now offerDays orderDays). date c' = k} = {c} \<and>
         offer c)) \<and>
   \<not> orderButtonEnabled (st\<lparr>selectedDate := None\<rparr>) (monthViewDays ref now offerDays orderDays)"
proof -
  define days where "days = monthViewDays ref now offerDays orderDays"
  have d: "distinct (map date days)" by (simp add: days_def grid_keys_distinct)
  have n: "\<not> orderButtonEnabled (st\<lparr>selectedDate := None\<rparr>) days"
    by (simp add: orderButtonEnabled_find)
  have "orderButtonEnabled st days \<longleftrightarrow>
      (\<exists>k c. selectedDate st = Some k \<and> {c' \<in> set days. date c' = k} = {c} \<and> offer c)"
  proof
    assume "orderButtonEnabled st days"
    then obtain k c where k: "selectedDate st = Some k" and o: "offer c"
      and "find (\<lambda>d. date d = k) days = Some c"
      by (auto simp add: orderButtonEnabled_find)
    then have c: "c \<in> set days" "date c = k" by (simp_all add: find_by_key [OF d])
    have "{c' \<in> set days. date c' = k} = {c}"
      using key_cells_singleton [OF d c(1)] by (simp add: c(2))
    with k o show "\<exists>k c. selectedDate st = Some k \<and> {c' \<in> set days. date c' = k} = {c} \<and> offer c"
      by blast
  next
    assume "\<exists>k c. selectedDate st = Some k \<and> {c' \<in> set days. date c' = k} = {c} \<and> offer c"
    then obtain k c where k: "selectedDate st = Some k" and o: "offer c"
      and s: "{c' \<in> set days. date c' = k} = {c}"
      by blast
    from s have c: "c \<in> set days \<and> date c = k" by blast
    then have f: "find (\<lambda>d. date d = k) days = Some c" by (simp add: find_by_key [OF d])
    have "k \<noteq> []" using c grid_key_nonempty [of c ref now offerDays orderDays]
      by (auto simp add: days_def)
    with k o f show "orderButtonEnabled st days"
      by (auto simp add: orderButtonEnabled_find)
  qed
  with n show ?thesis by (simp add: days_def)
qed

theorem C5_orderable_witness:
  "orderButtonEnabled (initialState\<lparr>selectedDate := Some ''2024-03-10''\<rparr>)
     (monthViewDays 1709251200000 0 [''2024-03-10''] []) \<and>
   \<not> orderButtonEnabled (initialState\<lparr>selectedDate := Some ''2024-03-10''\<rparr>)
     (monthViewDays 1709251200000 0 [] []) \<and>
   \<not> orderButtonEnabled initialState (monthViewDays 1709251200000 0 [''2024-03-10''] [])"
proof -
  have d: "distinct (map date (monthViewDays 1709251200000 0 offerDays []))" for offerDays
    by (rule grid_keys_distinct)
  have c: "date (monthDay (MakeDate 19792 0) 1709251200000 0 offerDays []) = ''2024-03-10''"
    for offerDays
    by (simp add: date_monthDay key_2024_03_10)
  have s: "{c' \<in> set (monthViewDays 1709251200000 0 offerDays []). date c' = ''2024-03-10''}
      = {monthDay (MakeDate 19792 0) 1709251200000 0 offerDays []}" for offerDays
    using key_cells_singleton [OF d march_cells(1)] by (simp add: c)
  have yes: "offer (monthDay (MakeDate 19792 0) 1709251200000 0 [''2024-03-10''] [])"
    and no: "\<not> offer (monthDay (MakeDate 19792 0) 1709251200000 0 [] [])"
    by (simp_all add: monthDay_def key_2024_03_10)
  have i: "initialState\<lparr>selectedDate := None\<rparr> = initialState"
    by (simp add: initialState_def)
  show ?thesis
    using C5_orderable [of "initialState\<lparr>selectedDate := Some ''2024-03-10''\<rparr>"
        1709251200000 0 "[''2024-03-10'']" "[]"]
      C5_orderable [of "initialState\<lparr>selectedDate := Some ''2024-03-10''\<rparr>"
        1709251200000 0 "[]" "[]"]
      C5_orderable [of initialState 1709251200000 0 "[''2024-03-10'']" "[]"]
    by (simp add: s yes no i)
qed

text \<open>
  C10. \<open>handleOrder\<close> checks for itself that a date is selected and that the first cell
  with that key has \<open>offer\<close>: when no date is selected, or no cell of the grid with the
  selected key has \<open>offer\<close>, it makes no request, writes nothing and leaves the state as
  it is.
\<close>

theorem C10_handler_guards_itself:
  assumes "\<not> (\<exists>k c. selectedDate st = Some k \<and> c \<in> set days \<and> date c = k \<and> offer c)"
  shows "handleOrder st days now res cur = ([], cur)"
proof (rule handleOrder_guard)
  show "\<not> orderButtonEnabled st days"
    using assms by (auto simp add: orderButtonEnabled_find find_Some_iff)
qed

theorem C10_handler_guards_itself_witness:
  "handleOrder initialState (monthViewDays 1709251200000 0 [''2024-03-10''] []) 0
     (Response 200 True) initialState = ([], initialState) \<and>
   monthDay (MakeDate 19779 0) 1709251200000 0 [''2024-03-10''] []
     \<in> set (monthViewDays 1709251200000 0 [''2024-03-10''] []) \<and>
   date (monthDay (MakeDate 19779 0) 1709251200000 0 [''2024-03-10''] []) = ''2024-02-26'' \<and>
   \<not> offer (monthDay (MakeDate 19779 0) 1709251200000 0 [''2024-03-10''] []) \<and>
   handleOrder (initialState\<lparr>selectedDate := Some ''2024-02-26''\<rparr>)
     (monthViewDays 1709251200000 0 [''2024-03-10''] []) 0
     (Response 200 True) initialState = ([], initialState)"
proof -
  have a: "\<not> (\<exists>k c. selectedDate initialState = Some k \<and>
      c \<in> set (monthViewDays 1709251200000 0 [''2024-03-10''] []) \<and> date c = k \<and> offer c)"
    by (simp add: initialState_def)
  have b: "\<not> (\<exists>k c. selectedDate (initialState\<lparr>selectedDate := Some ''2024-02-26''\<rparr>) = Some k \<and>
      c \<in> set (monthViewDays 1709251200000 0 [''2024-03-10''] []) \<and> date c = k \<and> offer c)"
    by (auto simp add: monthViewDays_upto monthDay_def)
  have c: "date (monthDay (MakeDate 19779 0) 1709251200000 0 [''2024-03-10''] []) = ''2024-02-26''"
    "\<not> offer (monthDay (MakeDate 19779 0) 1709251200000 0 [''2024-03-10''] [])"
    by (simp_all add: monthDay_def key_2024_02_26)
  show ?thesis
    using C10_handler_guards_itself [OF a, of 0 "Response 200 True" initialState]
      C10_handler_guards_itself [OF b, of 0 "Response 200 True" initialState]
      march_cells(2) [of 0 "[''2024-03-10'']" "[]"] c
    by (intro conjI)
qed


lemma march_order_enabled:
  "orderButtonEnabled (initialState\<lparr>selectedDate := Some ''2024-03-10''\<rparr>)
     (monthViewDays 1709251200000 0 [''2024-03-10''] [])"
proof -
  have "find (\<lambda>d. date d = ''2024-03-10'') (monthViewDays 1709251200000 0 [''2024-03-10''] [])
      = Some (monthDay (MakeDate 19792 0) 1709251200000 0 [''2024-03-10''] [])"
    using march_cells(1) [of 0 "[''2024-03-10'']" "[]"]
    by (simp add: find_by_key [OF grid_keys_distinct] date_monthDay key_2024_03_10)
  then show ?thesis
    by (simp add: orderButtonEnabled_find monthDay_def key_2024_03_10)
qed

definition failureMessage :: "FetchResult \<Rightarrow> string" where
  "failureMessage res =
     (case res of
        Rejected \<Rightarrow> msgConnectionFailed
      | Response status parses \<Rightarrow>
          if responseOk status then msgConnectionFailed else msgOrderFailed)"

text \<open>
  C7. When the handler's guard lets a submission through and it fails (the request is
  rejected, the response is not 2xx, or its body does not parse), the handler makes
  exactly one request, and its only change to the state is the popup: visible, of type
  \<open>error\<close>, with the connection text or the server-error text. The selected date and
  the width are what they were, and dismissing the popup hides it again.
\<close>

theorem C7_failed_submission:
  assumes "orderButtonEnabled st days"
    and "res = Rejected \<or> (\<exists>status parses. res = Response status parses \<and>
           \<not> (responseOk status \<and> parses))"
  shows "\<exists>k. selectedDate st = Some k \<and>
      fst (handleOrder st days now res cur) = [FetchPost orderUrl k now, ConsoleError] \<and>
      snd (handleOrder st days now res cur)
        = cur\<lparr>popup := \<lparr> visible = True, message = failureMessage res, ptype = error \<rparr>\<rparr> \<and>
      selectedDate (snd (handleOrder st days now res cur)) = selectedDate cur \<and>
      width (snd (handleOrder st days now res cur)) = width cur \<and>
      dismissPopup (snd (handleOrder st days now res cur))
        = cur\<lparr>popup := \<lparr> visible = False, message = failureMessage res, ptype = error \<rparr>\<rparr>"
proof -
  from assms(1) obtain k c where k: "selectedDate st = Some k" "k \<noteq> []"
    and f: "find (\<lambda>d. date d = k) days = Some c" "offer c"
    by (auto simp add: orderButtonEnabled_find)
  from assms(2) have
    "handleOrder st days now res cur =
       ([FetchPost orderUrl k now, ConsoleError], showPopup (failureMessage res) error cur)"
    by (auto simp add: handleOrder_def k f failureMessage_def)
  then show ?thesis
    by (simp add: k showPopup_def dismissPopup_def)
qed

theorem C7_failed_submission_witness:
  "orderButtonEnabled (initialState\<lparr>selectedDate := Some ''2024-03-10''\<rparr>)
     (monthViewDays 1709251200000 0 [''2024-03-10''] []) \<and>
   \<not> responseOk 500 \<and>
   handleOrder (initialState\<lparr>selectedDate := Some ''2024-03-10''\<rparr>)
     (monthViewDays 1709251200000 0 [''2024-03-10''] []) 0 (Response 500 True)
     (initialState\<lparr>selectedDate := Some ''2024-03-10''\<rparr>)
   = ([FetchPost orderUrl ''2024-03-10'' 0, ConsoleError],
      initialState\<lparr>selectedDate := Some ''2024-03-10'',
        popup := \<lparr> visible = True, message = msgOrderFailed, ptype = error \<rparr>\<rparr>) \<and>
   handleOrder (initialState\<lparr>selectedDate := Some ''2024-03-10''\<rparr>)
     (monthViewDays 1709251200000 0 [''2024-03-10''] []) 0 Rejected
     (initialState\<lparr>selectedDate := Some ''2024-03-10''\<rparr>)
   = ([FetchPost orderUrl ''2024-03-10'' 0, ConsoleError],
      initialState\<lparr>selectedDate := Some ''2024-03-10'',
        popup := \<lparr> visible = True, message = msgConnectionFailed, ptype = error \<rparr>\<rparr>)"
proof -
  have a: "Response 500 True = Rejected \<or> (\<exists>status parses.
      Response 500 True = Response status parses \<and> \<not> (responseOk status \<and> parses))"
    by (auto simp add: responseOk_def)
  have b: "Rejected = Rejected \<or> (\<exists>status parses.
      Rejected = Response status parses \<and> \<not> (responseOk status \<and> parses))"
    by simp
  have n: "\<not> responseOk 500" by (simp add: responseOk_def)
  show ?thesis
    using C7_failed_submission [OF march_order_enabled a, of 0
        "initialState\<lparr>selectedDate := Some ''2024-03-10''\<rparr>"]
      C7_failed_submission [OF march_order_enabled b, of 0
        "initialState\<lparr>selectedDate := Some ''2024-03-10''\<rparr>"]
      march_order_enabled n
    by (simp add: prod_eq_iff failureMessage_def)
qed


section \<open>Date objects: time zone, range and Invalid Date\<close>

text \<open>
  A JavaScript \<open>Date\<close> object holds a time value in UTC, or \<open>NaN\<close> (Invalid Date). Its
  methods read the fields of the local time \<open>LocalTime(t) = t + LocalTZA(t, true)\<close>,
  and its setters compute a new local time value with the formulas of the first part,
  take it back to UTC with \<open>UTC(t) = t - LocalTZA(t, false)\<close> and pass it through
  \<open>TimeClip\<close>, which gives \<open>NaN\<close> beyond 8.64e15 ms on either side of the epoch.
  The time zone is the function \<open>LocalTZA\<close>, a parameter here: its first argument is a
  time value, its second says whether that value is UTC (\<open>True\<close>) or local. A getter of
  an Invalid Date returns \<open>NaN\<close>, a setter with a \<open>NaN\<close> argument makes the Date
  invalid; \<open>None\<close> stands for \<open>NaN\<close> and for Invalid Date. All numbers that occur are
  integers below \<open>2^53\<close>, so the arithmetic of doubles is exact on them.
  The functions of this part carry the suffix \<open>_tz\<close>; each wraps the function of the
  same name of the first part, which computes on a local time value.
\<close>

type_synonym TimeZone = "int \<Rightarrow> bool \<Rightarrow> int"

type_synonym JSDate = "int option"

definition maxTime :: int where
  "maxTime = 8640000000000000"

definition TimeClip :: "int \<Rightarrow> JSDate" where
  "TimeClip t = (if \<bar>t\<bar> > maxTime then None else Some t)"


definition LocalTime :: "TimeZone \<Rightarrow> int \<Rightarrow> int" where
  "LocalTime tz t = t + tz t True"

definition UTC :: "TimeZone \<Rightarrow> int \<Rightarrow> int" where
  "UTC tz t = t - tz t False"

text \<open>Arithmetic and comparison of numbers that may be \<open>NaN\<close>.\<close>

definition numAdd :: "int option \<Rightarrow> int option \<Rightarrow> int option" where
  "numAdd a b = (case (a, b) of (Some x, Some y) \<Rightarrow> Some (x + y) | _ \<Rightarrow> None)"

definition numSub :: "int option \<Rightarrow> int option \<Rightarrow> int option" where
  "numSub a b = (case (a, b) of (Some x, Some y) \<Rightarrow> Some (x - y) | _ \<Rightarrow> None)"


definition numLe :: "int option \<Rightarrow> int option \<Rightarrow> bool" where
  "numLe a b = (case (a, b) of (Some x, Some y) \<Rightarrow> x \<le> y | _ \<Rightarrow> False)"

definition numLt :: "int option \<Rightarrow> int option \<Rightarrow> bool" where
  "numLt a b = (case (a, b) of (Some x, Some y) \<Rightarrow> x < y | _ \<Rightarrow> False)"

definition numEq :: "int option \<Rightarrow> int option \<Rightarrow> bool" where
  "numEq a b = (case (a, b) of (Some x, Some y) \<Rightarrow> x = y | _ \<Rightarrow> False)"

subsection \<open>Date methods\<close>

definition getFullYear_tz :: "TimeZone \<Rightarrow> JSDate \<Rightarrow> int option" where
  "getFullYear_tz tz d = map_option (\<lambda>t. getFullYear (LocalTime tz t)) d"

definition getMonth_tz :: "TimeZone \<Rightarrow> JSDate \<Rightarrow> int option" where
  "getMonth_tz tz d = map_option (\<lambda>t. getMonth (LocalTime tz t)) d"

definition getDate_tz :: "TimeZone \<Rightarrow> JSDate \<Rightarrow> int option" where
  "getDate_tz tz d = map_option (\<lambda>t. getDate (LocalTime tz t)) d"

definition getDay_tz :: "TimeZone \<Rightarrow> JSDate \<Rightarrow> int option" where
  "getDay_tz tz d = map_option (\<lambda>t. getDay (LocalTime tz t)) d"

definition setDate_tz :: "TimeZone \<Rightarrow> JSDate \<Rightarrow> int option \<Rightarrow> JSDate" where
  "setDate_tz tz d dt =
     (case (d, dt) of
        (Some t, Some n) \<Rightarrow> TimeClip (UTC tz (setDate (LocalTime tz t) n))
      | _ \<Rightarrow> None)"


text \<open>\<open>setFullYear\<close> starts from the time value \<open>+0\<close> when the Date is invalid.\<close>

definition setFullYear_tz ::
  "TimeZone \<Rightarrow> JSDate \<Rightarrow> int option \<Rightarrow> int option \<Rightarrow> int option \<Rightarrow> JSDate" where
  "setFullYear_tz tz d y m dt =
     (let t = (case d of None \<Rightarrow> 0 | Some u \<Rightarrow> LocalTime tz u)
      in case (y, m, dt) of
           (Some y', Some m', Some n) \<Rightarrow> TimeClip (UTC tz (setFullYear t y' m' n))
         | _ \<Rightarrow> None)"

definition setHours_tz :: "TimeZone \<Rightarrow> JSDate \<Rightarrow> int \<Rightarrow> int \<Rightarrow> int \<Rightarrow> int \<Rightarrow> JSDate" where
  "setHours_tz tz d h m s ms =
     (case d of
        Some t \<Rightarrow> TimeClip (UTC tz (setHours (LocalTime tz t) h m s ms))
      | None \<Rightarrow> None)"

subsection \<open>The \<open>date-fns\<close> functions on Date objects\<close>

definition startOfDay_tz :: "TimeZone \<Rightarrow> JSDate \<Rightarrow> JSDate" where
  "startOfDay_tz tz d = setHours_tz tz d 0 0 0 0"

definition startOfMonth_tz :: "TimeZone \<Rightarrow> JSDate \<Rightarrow> JSDate" where
  "startOfMonth_tz tz d = setHours_tz tz (setDate_tz tz d (Some 1)) 0 0 0 0"

definition endOfMonth_tz :: "TimeZone \<Rightarrow> JSDate \<Rightarrow> JSDate" where
  "endOfMonth_tz tz d =
     (let month = getMonth_tz tz d
      in setHours_tz tz
           (setFullYear_tz tz d (getFullYear_tz tz d) (numAdd month (Some 1)) (Some 0))
           23 59 59 999)"

definition startOfWeek_tz :: "TimeZone \<Rightarrow> JSDate \<Rightarrow> int \<Rightarrow> JSDate" where
  "startOfWeek_tz tz d weekStartsOn =
     (let dy = getDay_tz tz d;
          diff = numSub (numAdd (Some (if numLt dy (Some weekStartsOn) then 7 else 0)) dy)
                   (Some weekStartsOn)
      in setHours_tz tz (setDate_tz tz d (numSub (getDate_tz tz d) diff)) 0 0 0 0)"

definition endOfWeek_tz :: "TimeZone \<Rightarrow> JSDate \<Rightarrow> int \<Rightarrow> JSDate" where
  "endOfWeek_tz tz d weekStartsOn =
     (let dy = getDay_tz tz d;
          diff = numSub (numAdd (Some (if numLt dy (Some weekStartsOn) then - 7 else 0))
                    (Some 6))
                   (numSub dy (Some weekStartsOn))
      in setHours_tz tz (setDate_tz tz d (numAdd (getDate_tz tz d) diff)) 23 59 59 999)"

definition addDays_tz :: "TimeZone \<Rightarrow> JSDate \<Rightarrow> int \<Rightarrow> JSDate" where
  "addDays_tz tz d amount =
     (if amount = 0 then d else setDate_tz tz d (numAdd (getDate_tz tz d) (Some amount)))"



definition isSameDay_tz :: "TimeZone \<Rightarrow> JSDate \<Rightarrow> JSDate \<Rightarrow> bool" where
  "isSameDay_tz tz dateLeft dateRight \<longleftrightarrow>
     numEq (startOfDay_tz tz dateLeft) (startOfDay_tz tz dateRight)"

definition isSameMonth_tz :: "TimeZone \<Rightarrow> JSDate \<Rightarrow> JSDate \<Rightarrow> bool" where
  "isSameMonth_tz tz dateLeft dateRight \<longleftrightarrow>
     numEq (getFullYear_tz tz dateLeft) (getFullYear_tz tz dateRight) \<and>
     numEq (getMonth_tz tz dateLeft) (getMonth_tz tz dateRight)"

text \<open>
  \<open>format\<close> throws a \<open>RangeError\<close> on an Invalid Date. The component formats the loop
  variable only inside the loop, where it is a valid Date, so the two formats take the
  time value of a valid Date.
\<close>

definition format_dd_tz :: "TimeZone \<Rightarrow> int \<Rightarrow> string" where
  "format_dd_tz tz t = format_dd (LocalTime tz t)"

definition format_DayFormat_tz :: "TimeZone \<Rightarrow> int \<Rightarrow> string" where
  "format_DayFormat_tz tz t = format_DayFormat (LocalTime tz t)"

subsection \<open>The grid of \<open>MonthView\<close> on Date objects\<close>

definition monthDay_tz ::
  "TimeZone \<Rightarrow> int \<Rightarrow> JSDate \<Rightarrow> JSDate \<Rightarrow> string list \<Rightarrow> string list \<Rightarrow> MonthDay" where
  "monthDay_tz tz t from now offerDays orderDays =
     \<lparr> day = format_dd_tz tz t,
       date = format_DayFormat_tz tz t,
       today = isSameDay_tz tz (Some t) now,
       offer = (format_DayFormat_tz tz t \<in> set offerDays),
       order = (format_DayFormat_tz tz t \<in> set orderDays),
       isCurrentMonth = isSameMonth_tz tz (Some t) from \<rparr>"

text \<open>
  The \<open>while\<close> loop, with the array \<open>days\<close> as it stands when the loop variable has the
  value \<open>dy\<close>. The condition \<open>day <= lastSunday || isSameDay(day, lastSunday)\<close> is
  false when \<open>day\<close> is an Invalid Date (a comparison with \<open>NaN\<close> is false, and so is
  \<open>isSameDay\<close>), so the body runs for valid dates only. In a time zone in which adding a
  day does not move the Date forward the loop does not end: the result is \<open>None\<close> then.
\<close>

partial_function (option) daysLoop_tz ::
  "TimeZone \<Rightarrow> JSDate \<Rightarrow> JSDate \<Rightarrow> JSDate \<Rightarrow> JSDate \<Rightarrow> string list \<Rightarrow> string list
     \<Rightarrow> MonthDay list \<Rightarrow> MonthDay list option" where
  "daysLoop_tz tz dy lastSunday from now offerDays orderDays days =
     (case dy of
        None \<Rightarrow> Some days
      | Some t \<Rightarrow>
          if numLe (Some t) lastSunday \<or> isSameDay_tz tz (Some t) lastSunday
          then daysLoop_tz tz (addDays_tz tz (Some t) 1) lastSunday from now offerDays orderDays
                 (days @ [monthDay_tz tz t from now offerDays orderDays])
          else Some days)"

definition monthViewDays_tz ::
  "TimeZone \<Rightarrow> JSDate \<Rightarrow> JSDate \<Rightarrow> string list \<Rightarrow> string list \<Rightarrow> MonthDay list option" where
  "monthViewDays_tz tz from now offerDays orderDays =
     (let monthStart = startOfMonth_tz tz from;
          monthEnd = endOfMonth_tz tz from;
          firstMonday = startOfWeek_tz tz monthStart 1;
          lastSunday = endOfWeek_tz tz monthEnd 1
      in daysLoop_tz tz firstMonday lastSunday from now offerDays orderDays [])"





subsection \<open>Time zones with a constant offset\<close>

definition fixedOffsetZone :: "TimeZone \<Rightarrow> int \<Rightarrow> bool" where
  "fixedOffsetZone tz c \<longleftrightarrow> \<bar>c\<bar> < msPerDay \<and> (\<forall>t b. tz t b = c)"



lemma fixed_LocalTime: "fixedOffsetZone tz c \<Longrightarrow> LocalTime tz t = t + c"
  by (simp add: fixedOffsetZone_def LocalTime_def)

lemma fixed_UTC: "fixedOffsetZone tz c \<Longrightarrow> UTC tz t = t - c"
  by (simp add: fixedOffsetZone_def UTC_def)

lemma TimeClip_Some_iff: "TimeClip x = Some y \<longleftrightarrow> y = x \<and> \<bar>x\<bar> \<le> maxTime"
  by (auto simp add: TimeClip_def)

lemma TimeClip_None_iff: "TimeClip x = None \<longleftrightarrow> maxTime < \<bar>x\<bar>"
  by (simp add: TimeClip_def)

lemma TimeClip_in: "\<bar>x\<bar> \<le> maxTime \<Longrightarrow> TimeClip x = Some x"
  by (simp add: TimeClip_def)

lemma TimeClip_low: "x < - maxTime \<Longrightarrow> TimeClip x = None"
  by (simp add: TimeClip_def)

lemma TimeClip_high: "maxTime < x \<Longrightarrow> TimeClip x = None"
  by (simp add: TimeClip_def)

lemma setDate_le: "1 \<le> n \<Longrightarrow> n \<le> getDate t \<Longrightarrow> setDate t n \<le> t"
proof -
  assume "1 \<le> n" "n \<le> getDate t"
  then have "(Day t - getDate t + n) * msPerDay \<le> Day t * msPerDay"
    using msPerDay_pos by (simp add: mult_right_mono)
  then have "MakeDate (Day t - getDate t + n) (TimeWithinDay t) \<le> MakeDate (Day t) (TimeWithinDay t)"
    by (simp add: MakeDate_def)
  then show ?thesis by (simp add: setDate_eq MakeDate_Day)
qed

lemma setHours_0_le: "setHours t 0 0 0 0 \<le> t"
  using TimeWithinDay_bounds(1) [of t] MakeDate_Day [of t]
  by (simp add: setHours_def MakeTime_0 MakeDate_def)

lemma setHours_end_ge: "t \<le> setHours t 23 59 59 999"
  using TimeWithinDay_bounds(2) [of t] MakeDate_Day [of t]
  by (simp add: setHours_def MakeTime_end MakeDate_def)

lemma startOfMonth_tz_fixed:
  assumes fz: "fixedOffsetZone tz c" and a: "a \<le> maxTime"
  shows "startOfMonth_tz tz (Some a) = TimeClip (startOfMonth (a + c) - c)"
proof -
  define J where "J = setDate (a + c) 1"
  have J: "J \<le> a + c" unfolding J_def using getDate_range(1) [of "a + c"] by (intro setDate_le) simp_all
  have S: "startOfMonth (a + c) = setHours J 0 0 0 0" by (simp add: startOfMonth_def J_def)
  have SJ: "startOfMonth (a + c) \<le> J" unfolding S by (rule setHours_0_le)
  show ?thesis
  proof (cases "\<bar>J - c\<bar> \<le> maxTime")
    case True
    then show ?thesis
      by (simp add: startOfMonth_tz_def setDate_tz_def setHours_tz_def fixed_LocalTime [OF fz]
          fixed_UTC [OF fz] J_def [symmetric] TimeClip_in S)
  next
    case False
    with J a have "J - c < - maxTime" by simp
    with SJ have "startOfMonth (a + c) - c < - maxTime" by simp
    then have "TimeClip (startOfMonth (a + c) - c) = None" by (rule TimeClip_low)
    moreover have "TimeClip (J - c) = None" using False by (simp add: TimeClip_def)
    ultimately show ?thesis
      by (simp add: startOfMonth_tz_def setDate_tz_def setHours_tz_def fixed_LocalTime [OF fz]
          fixed_UTC [OF fz] J_def [symmetric])
  qed
qed

lemma Day_le_monthLast: "Day t \<le> monthLast t"
proof -
  have "isSameMonth (MakeDate (Day t) 0) t"
    by (simp add: isSameMonth_def getFullYear_def getMonth_def Day_MakeDate_0)
  then show ?thesis by (simp add: isSameMonth_iff)
qed

lemma monthFirst_le_Day: "monthFirst t \<le> Day t"
proof -
  have "isSameMonth (MakeDate (Day t) 0) t"
    by (simp add: isSameMonth_def getFullYear_def getMonth_def Day_MakeDate_0)
  then show ?thesis by (simp add: isSameMonth_iff)
qed

lemma endOfMonth_tz_fixed:
  assumes fz: "fixedOffsetZone tz c" and a: "- maxTime \<le> a"
  shows "endOfMonth_tz tz (Some a) = TimeClip (endOfMonth (a + c) - c)"
proof -
  define I where "I = setFullYear (a + c) (getFullYear (a + c)) (getMonth (a + c) + 1) 0"
  have m: "0 \<le> getMonth (a + c) + 1" "getMonth (a + c) + 1 \<le> 12"
    using getMonth_range [of "a + c"] by simp_all
  have Ieq: "I = MakeDate (monthLast (a + c)) (TimeWithinDay (a + c))"
    by (simp add: I_def setFullYear_def MakeDay_upto12 [OF m] monthLast_eq)
  have "Day (a + c) * msPerDay \<le> monthLast (a + c) * msPerDay"
    using Day_le_monthLast [of "a + c"] msPerDay_pos by (simp add: mult_right_mono)
  then have I: "a + c \<le> I"
    using MakeDate_Day [of "a + c"] by (simp add: Ieq MakeDate_def)
  have E: "endOfMonth (a + c) = setHours I 23 59 59 999"
    by (simp add: endOfMonth_def I_def Let_def)
  have EI: "I \<le> endOfMonth (a + c)" unfolding E by (rule setHours_end_ge)
  show ?thesis
  proof (cases "\<bar>I - c\<bar> \<le> maxTime")
    case True
    then show ?thesis
      by (simp add: endOfMonth_tz_def setFullYear_tz_def setHours_tz_def getMonth_tz_def
          getFullYear_tz_def numAdd_def Let_def fixed_LocalTime [OF fz] fixed_UTC [OF fz]
          I_def [symmetric] TimeClip_in E)
  next
    case False
    with I a have "maxTime < I - c" by simp
    with EI have "maxTime < endOfMonth (a + c) - c" by simp
    then have "TimeClip (endOfMonth (a + c) - c) = None" by (rule TimeClip_high)
    moreover have "TimeClip (I - c) = None" using False by (simp add: TimeClip_def)
    ultimately show ?thesis
      by (simp add: endOfMonth_tz_def setFullYear_tz_def setHours_tz_def getMonth_tz_def
          getFullYear_tz_def numAdd_def Let_def fixed_LocalTime [OF fz] fixed_UTC [OF fz]
          I_def [symmetric])
  qed
qed



lemma getters_fixed:
  assumes "fixedOffsetZone tz c"
  shows "getFullYear_tz tz (Some t) = Some (getFullYear (t + c))"
    "getMonth_tz tz (Some t) = Some (getMonth (t + c))"
    "getDate_tz tz (Some t) = Some (getDate (t + c))"
    "getDay_tz tz (Some t) = Some (getDay (t + c))"
  by (simp_all add: getFullYear_tz_def getMonth_tz_def getDate_tz_def getDay_tz_def
      fixed_LocalTime [OF assms])

lemma setDate_tz_fixed:
  "fixedOffsetZone tz c \<Longrightarrow> setDate_tz tz (Some t) (Some n) = TimeClip (setDate (t + c) n - c)"
  by (simp add: setDate_tz_def fixed_LocalTime fixed_UTC)

lemma setHours_tz_fixed:
  "fixedOffsetZone tz c \<Longrightarrow>
     setHours_tz tz (Some t) h m s ms = TimeClip (setHours (t + c) h m s ms - c)"
  by (simp add: setHours_tz_def fixed_LocalTime fixed_UTC)

lemma setHours_idem_0: "TimeWithinDay t = 0 \<Longrightarrow> setHours t 0 0 0 0 = t"
  using MakeDate_Day [of t] by (simp add: setHours_def MakeTime_0)

lemma setHours_idem_end:
  "TimeWithinDay t = msPerDay - 1 \<Longrightarrow> setHours t 23 59 59 999 = t"
  using MakeDate_Day [of t] by (simp add: setHours_def MakeTime_end)

lemma TimeWithinDay_setDate: "TimeWithinDay (setDate t n) = TimeWithinDay t"
  by (simp add: setDate_eq TimeWithinDay_MakeDate TimeWithinDay_bounds)

lemma startOfWeek_via_setDate:
  "TimeWithinDay t = 0 \<Longrightarrow>
     startOfWeek t 1 = setDate t (getDate t - ((if getDay t < 1 then 7 else 0) + getDay t - 1))"
  by (simp add: startOfWeek_def Let_def setHours_idem_0 TimeWithinDay_setDate)

lemma endOfWeek_via_setDate:
  "TimeWithinDay t = msPerDay - 1 \<Longrightarrow>
     endOfWeek t 1 =
       setDate t (getDate t + ((if getDay t < 1 then - 7 else 0) + 6 - (getDay t - 1)))"
  by (simp add: endOfWeek_def Let_def setHours_idem_end TimeWithinDay_setDate)

lemma startOfWeek_tz_fixed:
  assumes fz: "fixedOffsetZone tz c" and w: "TimeWithinDay (s + c) = 0"
  shows "startOfWeek_tz tz (Some s) 1 = TimeClip (startOfWeek (s + c) 1 - c)"
proof -
  define K where "K = startOfWeek (s + c) 1"
  have K: "setDate (s + c) (getDate (s + c)
      - ((if getDay (s + c) < 1 then 7 else 0) + getDay (s + c) - 1)) = K"
    by (simp only: K_def startOfWeek_via_setDate [OF w])
  have Kw: "setHours K 0 0 0 0 = K"
    unfolding K [symmetric] by (rule setHours_idem_0) (simp add: TimeWithinDay_setDate w)
  have step: "setDate_tz tz (Some s) (numSub (getDate_tz tz (Some s))
      (numSub (numAdd (Some (if numLt (getDay_tz tz (Some s)) (Some 1) then 7 else 0))
         (getDay_tz tz (Some s))) (Some 1))) = TimeClip (K - c)"
    using K by (simp add: getters_fixed [OF fz] setDate_tz_fixed [OF fz] numSub_def numAdd_def
        numLt_def)
  show ?thesis
  proof (cases "\<bar>K - c\<bar> \<le> maxTime")
    case True
    then have "setHours_tz tz (TimeClip (K - c)) 0 0 0 0 = TimeClip (K - c)"
      by (simp add: TimeClip_in setHours_tz_fixed [OF fz] Kw)
    then show ?thesis
      unfolding startOfWeek_tz_def Let_def step K_def [symmetric] .
  next
    case False
    then have "TimeClip (K - c) = None" by (simp add: TimeClip_def)
    then have "setHours_tz tz (TimeClip (K - c)) 0 0 0 0 = TimeClip (K - c)"
      by (simp add: setHours_tz_def)
    then show ?thesis
      unfolding startOfWeek_tz_def Let_def step K_def [symmetric] .
  qed
qed

lemma endOfWeek_tz_fixed:
  assumes fz: "fixedOffsetZone tz c" and w: "TimeWithinDay (e + c) = msPerDay - 1"
  shows "endOfWeek_tz tz (Some e) 1 = TimeClip (endOfWeek (e + c) 1 - c)"
proof -
  define K where "K = endOfWeek (e + c) 1"
  have K: "setDate (e + c) (getDate (e + c)
      + ((if getDay (e + c) < 1 then - 7 else 0) + 6 - (getDay (e + c) - 1))) = K"
    by (simp only: K_def endOfWeek_via_setDate [OF w])
  have Kw: "setHours K 23 59 59 999 = K"
    unfolding K [symmetric] by (rule setHours_idem_end) (simp add: TimeWithinDay_setDate w)
  have step: "setDate_tz tz (Some e) (numAdd (getDate_tz tz (Some e))
      (numSub (numAdd (Some (if numLt (getDay_tz tz (Some e)) (Some 1) then - 7 else 0)) (Some 6))
         (numSub (getDay_tz tz (Some e)) (Some 1)))) = TimeClip (K - c)"
    using K by (simp add: getters_fixed [OF fz] setDate_tz_fixed [OF fz] numSub_def numAdd_def
        numLt_def)
  show ?thesis
  proof (cases "\<bar>K - c\<bar> \<le> maxTime")
    case True
    then have "setHours_tz tz (TimeClip (K - c)) 23 59 59 999 = TimeClip (K - c)"
      by (simp add: TimeClip_in setHours_tz_fixed [OF fz] Kw)
    then show ?thesis
      unfolding endOfWeek_tz_def Let_def step K_def [symmetric] .
  next
    case False
    then have "TimeClip (K - c) = None" by (simp add: TimeClip_def)
    then have "setHours_tz tz (TimeClip (K - c)) 23 59 59 999 = TimeClip (K - c)"
      by (simp add: setHours_tz_def)
    then show ?thesis
      unfolding endOfWeek_tz_def Let_def step K_def [symmetric] .
  qed
qed

lemma invalid_propagates:
  "startOfMonth_tz tz None = None" "endOfMonth_tz tz None = None"
  "startOfWeek_tz tz None w = None" "endOfWeek_tz tz None w = None"
  by (simp_all add: startOfMonth_tz_def endOfMonth_tz_def startOfWeek_tz_def endOfWeek_tz_def
      setDate_tz_def setHours_tz_def setFullYear_tz_def getMonth_tz_def getFullYear_tz_def
      getDate_tz_def getDay_tz_def numAdd_def numSub_def Let_def)

lemma startOfWeek_le: "startOfWeek t 1 \<le> t"
proof -
  have "0 \<le> (Day t + 3) mod 7" by simp
  then have "(Day t - (Day t + 3) mod 7) * msPerDay \<le> Day t * msPerDay"
    using msPerDay_pos by (simp add: mult_right_mono)
  then show ?thesis
    using MakeDate_Day [of t] TimeWithinDay_bounds(1) [of t]
    by (simp add: startOfWeek_Day MakeDate_def)
qed

lemma endOfWeek_ge: "t \<le> endOfWeek t 1"
proof -
  have "(Day t + 3) mod 7 < 7" by simp
  then have "Day t * msPerDay \<le> (Day t + (6 - (Day t + 3) mod 7)) * msPerDay"
    using msPerDay_pos by (simp add: mult_right_mono)
  then show ?thesis
    using MakeDate_Day [of t] TimeWithinDay_bounds(2) [of t]
    by (simp add: endOfWeek_Day MakeDate_def)
qed

lemma startOfMonth_le: "startOfMonth t \<le> t"
  using setDate_le [of 1 t] getDate_range(1) [of t] setHours_0_le [of "setDate t 1"]
  by (simp add: startOfMonth_def)

lemma TimeWithinDay_startOfMonth: "TimeWithinDay (startOfMonth t) = 0"
  by (simp add: startOfMonth_Day TimeWithinDay_MakeDate_0)

lemma TimeWithinDay_endOfMonth: "TimeWithinDay (endOfMonth t) = msPerDay - 1"
  by (simp add: endOfMonth_fields TimeWithinDay_MakeDate msPerDay_def)

lemma endOfMonth_ge: "t \<le> endOfMonth t"
proof -
  have "Day t * msPerDay \<le> monthLast t * msPerDay"
    using Day_le_monthLast [of t] msPerDay_pos by (simp add: mult_right_mono)
  then show ?thesis
    using MakeDate_Day [of t] TimeWithinDay_bounds(2) [of t]
    by (simp add: endOfMonth_fields monthLast_eq [symmetric] MakeDate_def)
qed

text \<open>The first Monday and the last Sunday of the grid, as Date objects.\<close>

lemma firstMonday_tz_fixed:
  assumes fz: "fixedOffsetZone tz c" and a: "\<bar>a\<bar> \<le> maxTime"
  shows "startOfWeek_tz tz (startOfMonth_tz tz (Some a)) 1
    = TimeClip (MakeDate (gridFirst (a + c)) 0 - c)"
proof -
  define S where "S = startOfMonth (a + c)"
  have F: "MakeDate (gridFirst (a + c)) 0 = startOfWeek S 1"
    by (simp add: firstMonday_eq S_def)
  have m: "startOfMonth_tz tz (Some a) = TimeClip (S - c)"
    unfolding S_def using fz a by (intro startOfMonth_tz_fixed) simp_all
  show ?thesis
  proof (cases "\<bar>S - c\<bar> \<le> maxTime")
    case True
    have "TimeWithinDay (S - c + c) = 0" by (simp add: S_def TimeWithinDay_startOfMonth)
    then have "startOfWeek_tz tz (Some (S - c)) 1 = TimeClip (startOfWeek (S - c + c) 1 - c)"
      by (rule startOfWeek_tz_fixed [OF fz])
    then show ?thesis using True by (simp add: m TimeClip_in F)
  next
    case False
    have "S \<le> a + c" unfolding S_def by (rule startOfMonth_le)
    with False a have "S - c < - maxTime" by simp
    with startOfWeek_le [of S] have "startOfWeek S 1 - c < - maxTime" by simp
    then have "TimeClip (startOfWeek S 1 - c) = None" by (rule TimeClip_low)
    moreover have "TimeClip (S - c) = None" using False by (simp add: TimeClip_def)
    ultimately show ?thesis by (simp add: m F invalid_propagates)
  qed
qed

lemma lastSunday_eq: "endOfWeek (endOfMonth ref) 1 = MakeDate (gridLast ref) (msPerDay - 1)"
  by (simp add: endOfWeek_Day gridLast_eq monthLast_def)

lemma lastSunday_tz_fixed:
  assumes fz: "fixedOffsetZone tz c" and a: "\<bar>a\<bar> \<le> maxTime"
  shows "endOfWeek_tz tz (endOfMonth_tz tz (Some a)) 1
    = TimeClip (MakeDate (gridLast (a + c)) (msPerDay - 1) - c)"
proof -
  define E where "E = endOfMonth (a + c)"
  have L: "MakeDate (gridLast (a + c)) (msPerDay - 1) = endOfWeek E 1"
    by (simp add: lastSunday_eq E_def)
  have m: "endOfMonth_tz tz (Some a) = TimeClip (E - c)"
    unfolding E_def using fz a by (intro endOfMonth_tz_fixed) simp_all
  show ?thesis
  proof (cases "\<bar>E - c\<bar> \<le> maxTime")
    case True
    have "TimeWithinDay (E - c + c) = msPerDay - 1" by (simp add: E_def TimeWithinDay_endOfMonth)
    then have "endOfWeek_tz tz (Some (E - c)) 1 = TimeClip (endOfWeek (E - c + c) 1 - c)"
      by (rule endOfWeek_tz_fixed [OF fz])
    then show ?thesis using True by (simp add: m TimeClip_in L)
  next
    case False
    have "a + c \<le> E" unfolding E_def by (rule endOfMonth_ge)
    with False a have "maxTime < E - c" by simp
    with endOfWeek_ge [of E] have "maxTime < endOfWeek E 1 - c" by simp
    then have "TimeClip (endOfWeek E 1 - c) = None" by (rule TimeClip_high)
    moreover have "TimeClip (E - c) = None" using False by (simp add: TimeClip_def)
    ultimately show ?thesis by (simp add: m L invalid_propagates)
  qed
qed



subsection \<open>The loop in a time zone with a constant offset\<close>

lemma addDays_tz_fixed:
  assumes fz: "fixedOffsetZone tz c"
  shows "addDays_tz tz (Some t) 1 = TimeClip (t + msPerDay)"
proof -
  have "setDate (t + c) (getDate (t + c) + 1) = t + c + msPerDay"
    using addDays_eq [of "t + c" 1] by (simp add: addDays_def)
  then show ?thesis
    by (simp add: addDays_tz_def getters_fixed [OF fz] numAdd_def setDate_tz_fixed [OF fz])
qed

lemma startOfDay_tz_fixed:
  "fixedOffsetZone tz c \<Longrightarrow> startOfDay_tz tz (Some t) = TimeClip (Day (t + c) * msPerDay - c)"
  by (simp add: startOfDay_tz_def setHours_tz_fixed setHours_def MakeTime_0 MakeDate_def)

lemma isSameDay_tz_imp:
  assumes fz: "fixedOffsetZone tz c" and s: "isSameDay_tz tz (Some a) (Some b)"
  shows "Day (a + c) = Day (b + c)"
proof -
  from s obtain x y where x: "TimeClip (Day (a + c) * msPerDay - c) = Some x"
    and y: "TimeClip (Day (b + c) * msPerDay - c) = Some y" and e: "x = y"
    by (auto simp add: isSameDay_tz_def startOfDay_tz_fixed [OF fz] numEq_def
        split: option.splits)
  then have "Day (a + c) * msPerDay = Day (b + c) * msPerDay"
    by (simp add: TimeClip_Some_iff)
  then show ?thesis using msPerDay_pos by simp
qed

lemma daysLoop_tz_invalid:
  "daysLoop_tz tz None lastSunday ref now offerDays orderDays acc = Some acc"
  by (subst daysLoop_tz.simps) simp

lemma daysLoop_tz_no_end:
  "daysLoop_tz tz (Some t) None ref now offerDays orderDays acc = Some acc"
  by (subst daysLoop_tz.simps)
    (simp add: numLe_def isSameDay_tz_def numEq_def startOfDay_tz_def setHours_tz_def
      split: option.splits)

lemma daysLoop_tz_past:
  assumes fz: "fixedOffsetZone tz c" and p: "Day (l + c) < Day (u + c)"
  shows "daysLoop_tz tz (Some u) (Some l) ref now offerDays orderDays acc = Some acc"
proof -
  have "l + c < u + c" using p by (rule Day_less_imp_less)
  then have a: "\<not> numLe (Some u) (Some l)" by (simp add: numLe_def)
  have b: "\<not> isSameDay_tz tz (Some u) (Some l)"
    using isSameDay_tz_imp [OF fz, of u l] p by auto
  show ?thesis
    by (subst daysLoop_tz.simps) (simp add: a b)
qed

lemma midnight_eq: "TimeWithinDay x = 0 \<Longrightarrow> MakeDate (Day x) 0 = x"
  using MakeDate_Day [of x] by simp

lemma daysLoop_tz_fixed:
  assumes fz: "fixedOffsetZone tz c"
  shows "TimeWithinDay (t + c) = 0 \<Longrightarrow> - maxTime \<le> t \<Longrightarrow> l \<le> maxTime \<Longrightarrow>
    n = nat (Day (l + c) - Day (t + c) + 1) \<Longrightarrow>
    daysLoop_tz tz (Some t) (Some l) ref now offerDays orderDays acc =
      Some (acc @ map (\<lambda>D. monthDay_tz tz (MakeDate D 0 - c) ref now offerDays orderDays)
                    [Day (t + c)..Day (l + c)])"
proof (induction n arbitrary: t acc)
  case 0
  then have "Day (l + c) < Day (t + c)" by simp
  then show ?case
    by (simp add: daysLoop_tz_past [OF fz])
next
  case (Suc n)
  define Dt where "Dt = Day (t + c)"
  define Dl where "Dl = Day (l + c)"
  have le: "Dt \<le> Dl" using Suc.prems(4) by (simp add: Dt_def Dl_def)
  have tc: "t + c = MakeDate Dt 0"
    using midnight_eq [OF Suc.prems(1)] by (simp add: Dt_def)
  have lc: "Dl * msPerDay \<le> l + c"
    using MakeDate_Day [of "l + c"] TimeWithinDay_bounds(1) [of "l + c"]
    by (simp add: Dl_def MakeDate_def)
  have "Dt * msPerDay \<le> Dl * msPerDay" using le msPerDay_pos by (simp add: mult_right_mono)
  with tc lc have tl: "t \<le> l" by (simp add: MakeDate_def)
  have "t = MakeDate Dt 0 - c" using tc by simp
  then have cell: "monthDay_tz tz t ref now offerDays orderDays
      = monthDay_tz tz (MakeDate Dt 0 - c) ref now offerDays orderDays"
    by simp
  have unfold: "daysLoop_tz tz (Some t) (Some l) ref now offerDays orderDays acc =
      daysLoop_tz tz (TimeClip (t + msPerDay)) (Some l) ref now offerDays orderDays
        (acc @ [monthDay_tz tz (MakeDate Dt 0 - c) ref now offerDays orderDays])"
    using tl by (subst daysLoop_tz.simps) (simp add: numLe_def addDays_tz_fixed [OF fz] cell)
  have next_day: "Day (t + msPerDay + c) = Dt + 1"
    using Day_add_days [of "t + c" 1] by (simp add: Dt_def algebra_simps)
  have next_w: "TimeWithinDay (t + msPerDay + c) = 0"
    using Suc.prems(1) by (simp add: TimeWithinDay_def algebra_simps)
  show ?case
  proof (cases "Dt < Dl")
    case True
    then have "(Dt + 1) * msPerDay \<le> Dl * msPerDay"
      using msPerDay_pos by (intro mult_right_mono) simp_all
    with tc lc have "t + msPerDay \<le> l" by (simp add: MakeDate_def algebra_simps)
    with Suc.prems(2,3) msPerDay_pos have r: "\<bar>t + msPerDay\<bar> \<le> maxTime" by simp
    have m: "n = nat (Day (l + c) - Day (t + msPerDay + c) + 1)"
      using Suc.prems(4) by (simp add: next_day Dt_def)
    have lo: "- maxTime \<le> t + msPerDay" using r by simp
    have u: "[Dt..Dl] = Dt # [Dt + 1..Dl]" using le by (simp add: upto_rec1)
    show ?thesis
      unfolding unfold TimeClip_in [OF r]
      by (simp add: Suc.IH [OF next_w lo Suc.prems(3) m] next_day u
          Dt_def [symmetric] Dl_def [symmetric])
  next
    case False
    with le have e: "Dt = Dl" by simp
    have past: "Day (l + c) < Day (t + msPerDay + c)"
      by (simp add: next_day e Dl_def [symmetric])
    have "daysLoop_tz tz (TimeClip (t + msPerDay)) (Some l) ref now offerDays orderDays acc'
        = Some acc'" for acc'
    proof (cases "\<bar>t + msPerDay\<bar> \<le> maxTime")
      case True
      show ?thesis
        unfolding TimeClip_in [OF True] by (rule daysLoop_tz_past [OF fz past])
    next
      case False
      then have "TimeClip (t + msPerDay) = None" by (simp add: TimeClip_def)
      then show ?thesis by (simp add: daysLoop_tz_invalid)
    qed
    then show ?thesis
      unfolding unfold by (simp add: Dt_def [symmetric] Dl_def [symmetric] e)
  qed
qed

text \<open>
  The grid in a zone of constant offset \<open>c\<close>: the cells of the local days from the
  first Monday to the last Sunday when both are valid Dates, and no cell otherwise.
\<close>

lemma monthViewDays_tz_fixed:
  assumes fz: "fixedOffsetZone tz c" and a: "\<bar>a\<bar> \<le> maxTime"
  shows "monthViewDays_tz tz (Some a) now offerDays orderDays =
    Some (case (TimeClip (MakeDate (gridFirst (a + c)) 0 - c),
                TimeClip (MakeDate (gridLast (a + c)) (msPerDay - 1) - c)) of
            (Some f, Some l) \<Rightarrow>
              map (\<lambda>D. monthDay_tz tz (MakeDate D 0 - c) (Some a) now offerDays orderDays)
                [gridFirst (a + c)..gridLast (a + c)]
          | _ \<Rightarrow> [])"
proof -
  define F where "F = MakeDate (gridFirst (a + c)) 0"
  define L where "L = MakeDate (gridLast (a + c)) (msPerDay - 1)"
  have g: "monthViewDays_tz tz (Some a) now offerDays orderDays =
      daysLoop_tz tz (TimeClip (F - c)) (TimeClip (L - c)) (Some a) now offerDays orderDays []"
    by (simp add: monthViewDays_tz_def Let_def firstMonday_tz_fixed [OF fz a]
        lastSunday_tz_fixed [OF fz a] F_def L_def)
  show ?thesis
  proof (cases "TimeClip (F - c)")
    case None
    then show ?thesis
      by (simp add: g daysLoop_tz_invalid F_def [symmetric])
  next
    case f: (Some f)
    show ?thesis
    proof (cases "TimeClip (L - c)")
      case None
      then show ?thesis
        by (simp add: g f daysLoop_tz_no_end F_def [symmetric] L_def [symmetric])
    next
      case l: (Some l)
      have fv: "f = F - c" "\<bar>F - c\<bar> \<le> maxTime" using f by (simp_all add: TimeClip_Some_iff)
      have lv: "l = L - c" "\<bar>L - c\<bar> \<le> maxTime" using l by (simp_all add: TimeClip_Some_iff)
      have w: "TimeWithinDay (f + c) = 0" by (simp add: fv F_def TimeWithinDay_MakeDate_0)
      have d: "Day (f + c) = gridFirst (a + c)" "Day (l + c) = gridLast (a + c)"
        by (simp_all add: fv lv F_def L_def Day_MakeDate_0 Day_MakeDate_end)
      have lo: "- maxTime \<le> f" and hi: "l \<le> maxTime" using fv lv by simp_all
      show ?thesis
        using daysLoop_tz_fixed [OF fz w lo hi refl, of "Some a" now offerDays orderDays "[]"]
        by (simp add: g f l d F_def [symmetric] L_def [symmetric])
    qed
  qed
qed




subsection \<open>The cells in a time zone with a constant offset\<close>




lemma grid_tz_valid:
  assumes fz: "fixedOffsetZone tz c" and a: "\<bar>a\<bar> \<le> maxTime"
    and f: "startOfWeek_tz tz (startOfMonth_tz tz (Some a)) 1 = Some f"
    and l: "endOfWeek_tz tz (endOfMonth_tz tz (Some a)) 1 = Some l"
  shows "monthViewDays_tz tz (Some a) now offerDays orderDays =
      Some (map (\<lambda>D. monthDay_tz tz (MakeDate D 0 - c) (Some a) now offerDays orderDays)
              [gridFirst (a + c)..gridLast (a + c)])"
    and "f = MakeDate (gridFirst (a + c)) 0 - c"
    and "l = MakeDate (gridLast (a + c)) (msPerDay - 1) - c"
proof -
  have f': "TimeClip (MakeDate (gridFirst (a + c)) 0 - c) = Some f"
    using f by (simp add: firstMonday_tz_fixed [OF fz a])
  have l': "TimeClip (MakeDate (gridLast (a + c)) (msPerDay - 1) - c) = Some l"
    using l by (simp add: lastSunday_tz_fixed [OF fz a])
  show "monthViewDays_tz tz (Some a) now offerDays orderDays =
      Some (map (\<lambda>D. monthDay_tz tz (MakeDate D 0 - c) (Some a) now offerDays orderDays)
              [gridFirst (a + c)..gridLast (a + c)])"
    by (simp add: monthViewDays_tz_fixed [OF fz a] f' l')
  show "f = MakeDate (gridFirst (a + c)) 0 - c" using f' by (simp add: TimeClip_Some_iff)
  show "l = MakeDate (gridLast (a + c)) (msPerDay - 1) - c"
    using l' by (simp add: TimeClip_Some_iff)
qed









subsection \<open>Claims about the grid\<close>






subsection \<open>The cells of the reference month, on Date objects\<close>






subsection \<open>The last month of the range of Date\<close>






subsection \<open>Month navigation on Date objects\<close>















subsection \<open>Month navigation at the end of the range\<close>








subsection \<open>A time zone that skips a day\<close>















subsection \<open>The two grids agree\<close>

text \<open>
  In a time zone with a constant offset, when the first Monday and the last Sunday are
  valid Dates, the grid built on Date objects is the grid of the first part, built on
  the local time values of the reference date and of the current date. This is the
  setting of the statements on \<open>monthViewDays\<close>.
\<close>

lemma isSameDay_tz_fixed:
  assumes fz: "fixedOffsetZone tz c" and t: "\<bar>Day (t + c) * msPerDay - c\<bar> \<le> maxTime"
  shows "isSameDay_tz tz (Some t) (Some n) = isSameDay (t + c) (n + c)"
proof (cases "Day (t + c) = Day (n + c)")
  case True
  then show ?thesis
    using TimeClip_in [OF t]
    by (simp add: isSameDay_tz_def startOfDay_tz_fixed [OF fz] numEq_def isSameDay_iff)
next
  case False
  then have "Day (t + c) * msPerDay - c \<noteq> Day (n + c) * msPerDay - c"
    using msPerDay_pos by simp
  then show ?thesis
    using False TimeClip_in [OF t]
    by (auto simp add: isSameDay_tz_def startOfDay_tz_fixed [OF fz] numEq_def isSameDay_iff
        TimeClip_Some_iff split: option.splits)
qed

lemma monthViewDays_tz_local:
  assumes fz: "fixedOffsetZone tz c" and a: "\<bar>a\<bar> \<le> maxTime"
    and f: "startOfWeek_tz tz (startOfMonth_tz tz (Some a)) 1 = Some f"
    and l: "endOfWeek_tz tz (endOfMonth_tz tz (Some a)) 1 = Some l"
  shows "monthViewDays_tz tz (Some a) (Some n) offerDays orderDays
    = Some (monthViewDays (a + c) (n + c) offerDays orderDays)"
proof -
  note g = grid_tz_valid [OF fz a f l]
  have f': "\<bar>f\<bar> \<le> maxTime" using f firstMonday_tz_fixed [OF fz a]
    by (simp add: TimeClip_Some_iff)
  have l': "\<bar>l\<bar> \<le> maxTime" using l lastSunday_tz_fixed [OF fz a]
    by (simp add: TimeClip_Some_iff)
  have cell: "monthDay_tz tz (MakeDate D 0 - c) (Some a) (Some n) offerDays orderDays
      = monthDay (MakeDate D 0) (a + c) (n + c) offerDays orderDays"
    if D: "D \<in> set [gridFirst (a + c)..gridLast (a + c)]" for D
  proof -
    have lo: "gridFirst (a + c) * msPerDay \<le> D * msPerDay"
      and hi: "D * msPerDay \<le> gridLast (a + c) * msPerDay"
      using D msPerDay_pos by (simp_all add: mult_right_mono)
    have "f \<le> MakeDate D 0 - c"
      unfolding g(2) MakeDate_def using lo by linarith
    moreover have "MakeDate D 0 - c \<le> l"
      unfolding g(3) MakeDate_def using hi msPerDay_pos by linarith
    ultimately have b: "\<bar>MakeDate D 0 - c\<bar> \<le> maxTime" using f' l' by linarith
    have "Day (MakeDate D 0) * msPerDay = MakeDate D 0"
      unfolding Day_MakeDate_0 by (simp add: MakeDate_def)
    with b have r: "\<bar>Day (MakeDate D 0 - c + c) * msPerDay - c\<bar> \<le> maxTime"
      by simp
    show ?thesis
      using isSameDay_tz_fixed [OF fz r, of n]
      by (simp add: monthDay_tz_def monthDay_def format_DayFormat_tz_def format_dd_tz_def
          fixed_LocalTime [OF fz] isSameMonth_tz_def isSameMonth_def getters_fixed [OF fz]
          numEq_def)
  qed
  show ?thesis
    unfolding g(1) monthViewDays_upto using cell by simp
qed

end
